theory Spec2Isabelle
  imports Main "HOL-Library.AList"
begin

section \<open>Data model\<close>

text \<open>
  A Python exception is a value: its class name and its message (\<open>str(e)\<close>).
  A call that may raise returns \<open>exn + 'a\<close>, with \<open>Inl\<close> for the raise.
\<close>

datatype exn = Exn string string

fun exn_str :: "exn \<Rightarrow> string" where
  "exn_str (Exn cls msg) = msg"

text \<open>
  A pandas timestamp, as far as the pipeline reads it (\<open>.dt.year\<close>, \<open>.dt.month\<close>).
\<close>

record timestamp =
  ts_year :: int
  ts_month :: int
  ts_day :: int

text \<open>
  A pandas Series is a column of one dtype. \<open>None\<close> is a missing cell (NaT, NaN, None).
  Only the datetime dtype carries the \<open>.dt\<close> accessor.
\<close>

datatype series =
    Datetime "timestamp option list"
  | Numeric "int option list"
  | Object "string option list"

text \<open>
  A DataFrame: its columns in order, by name, and the length of its index (\<open>len(df)\<close>).
\<close>

record dataframe =
  columns :: "(string \<times> series) list"
  nrows :: nat

definition has_column :: "dataframe \<Rightarrow> string \<Rightarrow> bool" where
  \<comment> \<open>\<open>c in df.columns\<close>\<close>
  "has_column df c = (c \<in> fst ` set (columns df))"

definition getitem :: "dataframe \<Rightarrow> string \<Rightarrow> exn + series" where
  \<comment> \<open>\<open>df[c]\<close>: KeyError when the column is absent\<close>
  "getitem df c =
     (case map_of (columns df) c of
        None \<Rightarrow> Inl (Exn ''KeyError'' c)
      | Some s \<Rightarrow> Inr s)"

definition setitem :: "dataframe \<Rightarrow> string \<Rightarrow> series \<Rightarrow> dataframe" where
  \<comment> \<open>\<open>df[c] = s\<close>: replaces the column in place when it exists, appends it otherwise\<close>
  "setitem df c s = df\<lparr>columns := AList.update c s (columns df)\<rparr>"

definition df_empty :: "dataframe \<Rightarrow> bool" where
  \<comment> \<open>\<open>df.empty\<close>: some axis has length 0\<close>
  "df_empty df = (nrows df = 0 \<or> columns df = [])"

fun dt_year :: "series \<Rightarrow> exn + series" where
  "dt_year (Datetime ts) = Inr (Numeric (map (map_option ts_year) ts))"
| "dt_year s = Inl (Exn ''AttributeError'' ''Can only use .dt accessor with datetimelike values'')"

fun dt_month :: "series \<Rightarrow> exn + series" where
  "dt_month (Datetime ts) = Inr (Numeric (map (map_option ts_month) ts))"
| "dt_month s = Inl (Exn ''AttributeError'' ''Can only use .dt accessor with datetimelike values'')"

section \<open>The environment of a run\<close>

text \<open>
  A validation verdict (the dict the validator returns; \<open>quality_score\<close> may be
  missing), the configuration as the mapping \<open>yaml.safe_load\<close> returns, and the target
  store.
\<close>

record verdict =
  is_valid :: bool
  warnings :: "string list"
  quality_score :: "nat option"

type_synonym config = "(string \<times> (string \<times> string) list) list"

type_synonym store = "string \<rightharpoonup> dataframe list"

text \<open>
  Everything outside the repository's code under verification is a parameter of the model:
  the clock, the file system and the two databases, pandas' element-wise arithmetic and
  string methods (floating point and Unicode stay out of the model), loguru's sink set-up,
  the validator as the capability the orchestrator calls (the repository's own is
  \<open>DataValidator_validate\<close> below), and \<open>DataCleaner.clean\<close> of
  \<open>src/transform/cleaner.py\<close>, whose source is not available. Each of them may raise;
  constructing a cleaner or a validator is taken not to.
\<close>

record env =
  now_stamp :: string
    \<comment> \<open>\<open>datetime.now().strftime('%Y%m%d_%H%M%S')\<close>\<close>
  timestamp_now :: timestamp
    \<comment> \<open>\<open>pd.Timestamp.now()\<close>\<close>
  read_yaml :: "string \<Rightarrow> exn + config"
    \<comment> \<open>\<open>open(config_path)\<close> and \<open>yaml.safe_load\<close>\<close>
  logger_add :: "string \<Rightarrow> string \<Rightarrow> exn option"
    \<comment> \<open>\<open>logger.add(sink, level=...)\<close>\<close>
  path_exists :: "string \<Rightarrow> bool"
  read_csv :: "string \<Rightarrow> string list \<Rightarrow> exn + dataframe"
    \<comment> \<open>\<open>pd.read_csv(file_path, parse_dates=...)\<close>\<close>
  read_sql_query :: "string \<Rightarrow> string \<Rightarrow> exn + dataframe"
    \<comment> \<open>\<open>sqlite3.connect(db_path)\<close> and \<open>pd.read_sql_query(sql, conn)\<close>\<close>
  clean :: "dataframe \<Rightarrow> string \<Rightarrow> exn + dataframe"
    \<comment> \<open>\<open>DataCleaner().clean(df, table_name)\<close>\<close>
  validate :: "(string \<times> string) list \<Rightarrow> dataframe \<Rightarrow> string \<Rightarrow> exn + verdict"
    \<comment> \<open>\<open>DataValidator(quality).validate(df, table_name)\<close>\<close>
  series_mul :: "series \<Rightarrow> series \<Rightarrow> exn + series"
  series_sub :: "series \<Rightarrow> series \<Rightarrow> exn + series"
  series_div :: "series \<Rightarrow> series \<Rightarrow> exn + series"
  series_times :: "series \<Rightarrow> int \<Rightarrow> exn + series"
  series_round :: "series \<Rightarrow> nat \<Rightarrow> exn + series"
  str_lower :: "series \<Rightarrow> exn + series"
  str_strip :: "series \<Rightarrow> exn + series"
  create_engine :: "string \<Rightarrow> exn option"
    \<comment> \<open>\<open>sqlalchemy.create_engine(url)\<close>\<close>
  to_sql_error :: "store \<Rightarrow> string \<Rightarrow> dataframe \<Rightarrow> string \<Rightarrow> exn option"
    \<comment> \<open>the failure, if any, of \<open>df.to_sql(table, engine, if_exists=...)\<close> on the target as it stands\<close>

text \<open>
  \<open>DataValidator.validate\<close> of \<open>src/transform/validator.py\<close>: every dataset is
  valid, with no warnings and a quality score of 100.
\<close>

definition DataValidator_validate ::
  "(string \<times> string) list \<Rightarrow> dataframe \<Rightarrow> string \<Rightarrow> exn + verdict" where
  "DataValidator_validate cfg df table_name =
     Inr \<lparr>is_valid = True, warnings = [], quality_score = Some 100\<rparr>"

section \<open>Business rules (\<open>ETLOrchestrator._apply_business_logic\<close>)\<close>

definition bind :: "exn + 'a \<Rightarrow> ('a \<Rightarrow> exn + 'b) \<Rightarrow> exn + 'b" where
  \<comment> \<open>sequencing: the first raise ends the computation\<close>
  "bind m f = (case m of Inl e \<Rightarrow> Inl e | Inr x \<Rightarrow> f x)"

definition apply_business_logic :: "env \<Rightarrow> dataframe \<Rightarrow> string \<Rightarrow> exn + dataframe" where
  "apply_business_logic E df table_name =
     (if table_name = ''orders'' then
        bind (if has_column df ''quantity'' \<and> has_column df ''unit_price''
              then bind (getitem df ''quantity'') (\<lambda>q.
                   bind (getitem df ''unit_price'') (\<lambda>p.
                   bind (series_mul E q p) (\<lambda>total.
                   Inr (setitem df ''total_amount'' total))))
              else Inr df) (\<lambda>df1.
        bind (getitem df1 ''order_date'') (\<lambda>d.
        bind (dt_year d) (\<lambda>y.
        let df2 = setitem df1 ''order_year'' y in
        bind (getitem df2 ''order_date'') (\<lambda>d'.
        bind (dt_month d') (\<lambda>m.
        Inr (setitem df2 ''order_month'' m))))))
      else if table_name = ''customers'' then
        (if has_column df ''email''
         then bind (getitem df ''email'') (\<lambda>e.
              bind (str_lower E e) (\<lambda>l.
              bind (str_strip E l) (\<lambda>s.
              Inr (setitem df ''email'' s))))
         else Inr df)
      else if table_name = ''products'' then
        (if has_column df ''price'' \<and> has_column df ''cost''
         then bind (getitem df ''price'') (\<lambda>p.
              bind (getitem df ''cost'') (\<lambda>c.
              bind (series_sub E p c) (\<lambda>d.
              bind (getitem df ''price'') (\<lambda>p'.
              bind (series_div E d p') (\<lambda>r.
              bind (series_times E r 100) (\<lambda>pct.
              bind (series_round E pct 2) (\<lambda>margin.
              Inr (setitem df ''margin_pct'' margin))))))))
         else Inr df)
      else Inr df)"


section \<open>Logging, metrics and the error handler\<close>

text \<open>
  The orchestrator's effects on its collaborators are recorded as the sequence of calls
  it makes, in order: every loguru call with its level and message, every call on the
  metrics collector, and every call on the error handler.
\<close>

datatype level = INFO | WARNING | ERROR | SUCCESS

datatype event =
    Log level string
  | StartPipeline string
  | EndPipeline string string
  | RecordExtraction string nat
  | RecordTransformation string nat nat nat
  | RecordLoad string nat
  | HandleError exn "(string \<times> string) list"

fun show_nat :: "nat \<Rightarrow> string" where
  "show_nat n =
     (if n < 10 then [char_of (48 + n)]
      else show_nat (n div 10) @ [char_of (48 + n mod 10)])"

declare show_nat.simps [simp del]

text \<open>
  \<open>PipelineMetrics\<close> of \<open>src/utils/metrics.py\<close>: an object without attributes. Every
  recording method is \<open>pass\<close>; \<open>get_summary\<close> returns a literal.
\<close>

datatype PipelineMetrics = PipelineMetrics

record summary =
  status :: string
  duration_seconds :: nat
  total_extracted :: nat
  total_loaded :: nat
  avg_quality_score :: nat

definition start_pipeline :: "PipelineMetrics \<Rightarrow> string \<Rightarrow> PipelineMetrics" where
  "start_pipeline m run_id = m"

definition end_pipeline :: "PipelineMetrics \<Rightarrow> string \<Rightarrow> string \<Rightarrow> PipelineMetrics" where
  "end_pipeline m run_id st = m"

definition record_extraction :: "PipelineMetrics \<Rightarrow> string \<Rightarrow> nat \<Rightarrow> PipelineMetrics" where
  "record_extraction m t c = m"

definition record_transformation ::
  "PipelineMetrics \<Rightarrow> string \<Rightarrow> nat \<Rightarrow> nat \<Rightarrow> nat \<Rightarrow> PipelineMetrics" where
  "record_transformation m t input_count output_count q = m"

definition record_load :: "PipelineMetrics \<Rightarrow> string \<Rightarrow> nat \<Rightarrow> PipelineMetrics" where
  "record_load m t c = m"

definition get_summary :: "PipelineMetrics \<Rightarrow> string \<Rightarrow> summary" where
  "get_summary m run_id =
     \<lparr>status = ''SUCCESS'', duration_seconds = 0, total_extracted = 0,
      total_loaded = 0, avg_quality_score = 100\<rparr>"

text \<open>The metrics object after the calls of a sequence of events have reached it.\<close>

fun metrics_call :: "PipelineMetrics \<Rightarrow> event \<Rightarrow> PipelineMetrics" where
  "metrics_call m (StartPipeline r) = start_pipeline m r"
| "metrics_call m (EndPipeline r st) = end_pipeline m r st"
| "metrics_call m (RecordExtraction t c) = record_extraction m t c"
| "metrics_call m (RecordTransformation t i out q) = record_transformation m t i out q"
| "metrics_call m (RecordLoad t c) = record_load m t c"
| "metrics_call m (Log l s) = m"
| "metrics_call m (HandleError e ctx) = m"

definition metrics_after :: "PipelineMetrics \<Rightarrow> event list \<Rightarrow> PipelineMetrics" where
  "metrics_after m evs = foldl metrics_call m evs"

text \<open>
  Modelled from the spec: \<open>ErrorHandler.handle_error\<close> of \<open>src/utils/error_handler.py\<close>,
  whose source is not available. The spec's contract (4.3): it always succeeds, does not
  raise, logs or forwards the error with its context, returns nothing, and does not
  decide control flow. The model records the call and does nothing else.
\<close>

definition handle_error :: "exn \<Rightarrow> (string \<times> string) list \<Rightarrow> event list" where
  "handle_error e ctx = [HandleError e ctx]"

section \<open>Computations that log and may raise\<close>

type_synonym 'a run = "(exn + 'a) \<times> event list"

definition emit :: "event list \<Rightarrow> unit run" where
  "emit evs = (Inr (), evs)"

definition lift :: "exn + 'a \<Rightarrow> 'a run" where
  "lift r = (r, [])"

definition ret :: "'a \<Rightarrow> 'a run" where
  "ret x = (Inr x, [])"

definition next_do :: "'a run \<Rightarrow> ('a \<Rightarrow> 'b run) \<Rightarrow> 'b run" where
  \<comment> \<open>one statement after another: a raise skips the rest, the events so far stay\<close>
  "next_do m f =
     (case m of
        (Inl e, evs) \<Rightarrow> (Inl e, evs)
      | (Inr x, evs) \<Rightarrow> (case f x of (r, evs') \<Rightarrow> (r, evs @ evs')))"

section \<open>Extractors\<close>

definition path_name :: "string \<Rightarrow> string" where
  \<comment> \<open>\<open>Path.name\<close>: the last component\<close>
  "path_name p = rev (takeWhile (\<lambda>c. c \<noteq> CHR ''/'') (rev p))"

definition CSVExtractor_init :: "env \<Rightarrow> string \<Rightarrow> string run" where
  \<comment> \<open>the extractor object is its \<open>source_path\<close>\<close>
  "CSVExtractor_init E source_path =
     (if \<not> path_exists E source_path
      then (Inl (Exn ''FileNotFoundError'' (''Source path does not exist: '' @ source_path)), [])
      else (Inr source_path, [Log INFO (''CSV Extractor initialized with path: '' @ source_path)]))"

definition get_date_columns :: "string \<Rightarrow> string list" where
  "get_date_columns table_name =
     (case map_of [(''orders'', [''order_date'', ''ship_date'']),
                   (''customers'', [''registration_date'', ''last_purchase_date'']),
                   (''products'', [''created_at'', ''updated_at''])] table_name of
        None \<Rightarrow> []
      | Some cs \<Rightarrow> cs)"

definition add_metadata :: "env \<Rightarrow> string \<Rightarrow> dataframe \<Rightarrow> dataframe" where
  \<comment> \<open>the two scalar assignments of \<open>CSVExtractor.extract\<close>, broadcast over the index\<close>
  "add_metadata E file_path df =
     (let df1 = setitem df ''_extracted_at''
                  (Datetime (replicate (nrows df) (Some (timestamp_now E))));
          df2 = setitem df1 ''_source_file''
                  (Object (replicate (nrows df1) (Some (path_name file_path))))
      in df2)"

definition CSVExtractor_extract :: "env \<Rightarrow> string \<Rightarrow> string \<Rightarrow> dataframe run" where
  "CSVExtractor_extract E source_path table_name =
     (let file_path = source_path @ ''/'' @ table_name @ ''.csv'' in
      if \<not> path_exists E file_path
      then (Inl (Exn ''FileNotFoundError'' (''CSV file not found: '' @ file_path)), [])
      else
        (case read_csv E file_path (get_date_columns table_name) of
           Inl e \<Rightarrow>
             (Inl e, [Log INFO (''Extracting from: '' @ file_path),
                      Log ERROR (''Failed to extract from '' @ file_path @ '': '' @ exn_str e)])
         | Inr df \<Rightarrow>
             (let df2 = add_metadata E file_path df in
              (Inr df2, [Log INFO (''Extracting from: '' @ file_path),
                         Log INFO (''Successfully extracted '' @ show_nat (nrows df2)
                                   @ '' rows from '' @ path_name file_path)]))))"

definition extract_table :: "env \<Rightarrow> string \<Rightarrow> string \<Rightarrow> string \<Rightarrow> exn + dataframe" where
  \<comment> \<open>\<open>DatabaseExtractor(db_path, db_type).extract_table(table_name)\<close>\<close>
  "extract_table E db_path db_type table_name =
     (if db_type \<noteq> ''sqlite''
      then Inl (Exn ''ValueError'' ''Only sqlite is supported in this demo project'')
      else read_sql_query E db_path (''SELECT * FROM '' @ table_name))"

section \<open>Loader\<close>

definition dict_item :: "(string \<times> 'v) list \<Rightarrow> string \<Rightarrow> exn + 'v" where
  \<comment> \<open>\<open>d[k]\<close>: KeyError when the key is absent\<close>
  "dict_item d k = (case map_of d k of None \<Rightarrow> Inl (Exn ''KeyError'' k) | Some v \<Rightarrow> Inr v)"

definition DatabaseLoader_init :: "env \<Rightarrow> (string \<times> string) list \<Rightarrow> exn + string" where
  \<comment> \<open>the loader object is its engine's URL\<close>
  "DatabaseLoader_init E cfg =
     bind (dict_item cfg ''user'') (\<lambda>user.
     bind (dict_item cfg ''password'') (\<lambda>password.
     bind (dict_item cfg ''host'') (\<lambda>host.
     bind (dict_item cfg ''port'') (\<lambda>port.
     bind (dict_item cfg ''database'') (\<lambda>db.
     let url = ''postgresql://'' @ user @ '':'' @ password @ ''@'' @ host @ '':'' @ port
               @ ''/'' @ db
     in (case create_engine E url of Some e \<Rightarrow> Inl e | None \<Rightarrow> Inr url))))))"

text \<open>
  The target store holds, for each table, the datasets written to it, in order:
  \<open>if_exists="replace"\<close> leaves the one just written, \<open>"append"\<close> adds it to what is there.
  A failed write leaves the target as it was.
\<close>

definition to_sql :: "env \<Rightarrow> store \<Rightarrow> dataframe \<Rightarrow> string \<Rightarrow> string \<Rightarrow> exn + store" where
  "to_sql E S df table_name if_exists =
     (case to_sql_error E S table_name df if_exists of
        Some e \<Rightarrow> Inl e
      | None \<Rightarrow>
          Inr (S(table_name \<mapsto>
                 (if if_exists = ''replace'' then [df]
                  else (case S table_name of None \<Rightarrow> [df] | Some old \<Rightarrow> old @ [df])))))"

definition load_full :: "env \<Rightarrow> store \<Rightarrow> dataframe \<Rightarrow> string \<Rightarrow> exn + (nat \<times> store)" where
  "load_full E S df table_name =
     bind (to_sql E S df table_name ''replace'') (\<lambda>S'. Inr (nrows df, S'))"

definition load_incremental :: "env \<Rightarrow> store \<Rightarrow> dataframe \<Rightarrow> string \<Rightarrow> exn + (nat \<times> store)" where
  "load_incremental E S df table_name =
     bind (to_sql E S df table_name ''append'') (\<lambda>S'. Inr (nrows df, S'))"

section \<open>The orchestrator (\<open>src/pipeline/orchestrator.py\<close>)\<close>

record orchestrator =
  config :: config
  metrics :: PipelineMetrics

type_synonym tables = "(string \<times> dataframe) list"

definition banner :: "string \<Rightarrow> event list" where
  "banner title =
     [Log INFO (replicate 60 CHR ''=''), Log INFO title, Log INFO (replicate 60 CHR ''='')]"

subsection \<open>Construction\<close>

definition config_get :: "config \<Rightarrow> string \<Rightarrow> (string \<times> string) list" where
  \<comment> \<open>\<open>self.config.get(section, {})\<close>\<close>
  "config_get cfg s = (case map_of cfg s of None \<Rightarrow> [] | Some d \<Rightarrow> d)"

definition dict_get :: "(string \<times> string) list \<Rightarrow> string \<Rightarrow> string \<Rightarrow> string" where
  \<comment> \<open>\<open>d.get(k, default)\<close>\<close>
  "dict_get d k dflt = (case map_of d k of None \<Rightarrow> dflt | Some v \<Rightarrow> v)"

definition config_item :: "config \<Rightarrow> string \<Rightarrow> string \<Rightarrow> exn + string" where
  \<comment> \<open>\<open>self.config[section][key]\<close>\<close>
  "config_item cfg s k = bind (dict_item cfg s) (\<lambda>d. dict_item d k)"

definition setup_logging :: "env \<Rightarrow> config \<Rightarrow> exn + unit" where
  "setup_logging E cfg =
     (let log_config = config_get cfg ''monitoring'';
          log_level = dict_get log_config ''log_level'' ''INFO'';
          log_path = dict_get log_config ''log_path'' ''logs/etl_pipeline.log''
      in case logger_add E ''sys.stdout'' log_level of
           Some e \<Rightarrow> Inl e
         | None \<Rightarrow>
             (case logger_add E log_path log_level of
                Some e \<Rightarrow> Inl e
              | None \<Rightarrow> Inr ()))"

definition ETLOrchestrator_init :: "env \<Rightarrow> string \<Rightarrow> orchestrator run" where
  "ETLOrchestrator_init E config_path =
     next_do (lift (read_yaml E config_path)) (\<lambda>cfg.
     next_do (lift (setup_logging E cfg)) (\<lambda>_.
     next_do (emit [Log INFO ''ETL Orchestrator initialized'']) (\<lambda>_.
     ret \<lparr>config = cfg, metrics = PipelineMetrics\<rparr>)))"

subsection \<open>Extract phase\<close>

text \<open>
  The loop over \<open>csv_tables\<close>: the \<open>try\<close> around one table's extraction swallows the
  exception after logging it and handing it to the error handler, and the loop goes on.
  \<open>extracted_data\<close> is a dict: an assignment to a key it has replaces the value in place.
\<close>

fun extract_csv_tables :: "env \<Rightarrow> string \<Rightarrow> string list \<Rightarrow> tables \<Rightarrow> tables \<times> event list" where
  "extract_csv_tables E csv_extractor [] extracted_data = (extracted_data, [])"
| "extract_csv_tables E csv_extractor (csv_table # rest) extracted_data =
     (case CSVExtractor_extract E csv_extractor csv_table of
        (Inr df, evs) \<Rightarrow>
          (case extract_csv_tables E csv_extractor rest (AList.update csv_table df extracted_data) of
             (result, evs') \<Rightarrow>
               (result,
                [Log INFO (''Extracting from CSV: '' @ csv_table)] @ evs
                @ [Log INFO (''Extracted '' @ show_nat (nrows df) @ '' records from '' @ csv_table),
                   RecordExtraction csv_table (nrows df)]
                @ evs'))
      | (Inl e, evs) \<Rightarrow>
          (case extract_csv_tables E csv_extractor rest extracted_data of
             (result, evs') \<Rightarrow>
               (result,
                [Log INFO (''Extracting from CSV: '' @ csv_table)] @ evs
                @ [Log ERROR (''Failed to extract '' @ csv_table @ '': '' @ exn_str e)]
                @ handle_error e [(''table'', csv_table)]
                @ evs')))"

definition csv_tables :: "string option \<Rightarrow> string list" where
  \<comment> \<open>\<open>[table] if table else ['orders', 'customers']\<close>: the empty string is falsy\<close>
  "csv_tables table =
     (case table of
        None \<Rightarrow> [''orders'', ''customers'']
      | Some t \<Rightarrow> if t \<noteq> [] then [t] else [''orders'', ''customers''])"

definition extract_products :: "env \<Rightarrow> string \<Rightarrow> tables \<Rightarrow> tables \<times> event list" where
  \<comment> \<open>the \<open>try\<close> around the SQLite extraction of products\<close>
  "extract_products E sqlite_db extracted_data =
     (case extract_table E sqlite_db ''sqlite'' ''products'' of
        Inr df \<Rightarrow>
          (AList.update ''products'' df extracted_data,
           [Log INFO ''Extracting from SQLite: products'',
            Log INFO (''Extracted '' @ show_nat (nrows df) @ '' records from products''),
            RecordExtraction ''products'' (nrows df)])
      | Inl e \<Rightarrow>
          (extracted_data,
           [Log INFO ''Extracting from SQLite: products'',
            Log ERROR (''Failed to extract products: '' @ exn_str e)]
           @ handle_error e [(''table'', ''products'')]))"

definition extract_phase :: "env \<Rightarrow> orchestrator \<Rightarrow> string option \<Rightarrow> tables run" where
  "extract_phase E self table =
     next_do (lift (config_item (config self) ''source'' ''csv_path'')) (\<lambda>csv_path.
     next_do (CSVExtractor_init E csv_path) (\<lambda>csv_extractor.
     (case extract_csv_tables E csv_extractor (csv_tables table) [] of
        (extracted_data, evs) \<Rightarrow>
          next_do (emit evs) (\<lambda>_.
          if table = None \<or> table = Some ''products'' then
            next_do (lift (config_item (config self) ''source'' ''sqlite_db'')) (\<lambda>sqlite_db.
            (case extract_products E sqlite_db extracted_data of
               (extracted_data', evs') \<Rightarrow>
                 next_do (emit evs') (\<lambda>_. ret extracted_data')))
          else ret extracted_data))))"

definition extract_incremental :: "string \<Rightarrow> dataframe option \<times> event list" where
  \<comment> \<open>the body is a log line and \<open>pass\<close>: the method returns \<open>None\<close>\<close>
  "extract_incremental table =
     (None, [Log INFO (''Incremental extraction for '' @ table @ '' (CDC/timestamp-based)'')])"

subsection \<open>Transform phase\<close>

definition transform_table :: "env \<Rightarrow> (string \<times> string) list \<Rightarrow> string \<Rightarrow> dataframe \<Rightarrow> dataframe run" where
  \<comment> \<open>the body of the \<open>try\<close> for one table\<close>
  "transform_table E quality table_name df =
     next_do (emit [Log INFO (''  - Cleansing '' @ table_name)]) (\<lambda>_.
     next_do (lift (clean E df table_name)) (\<lambda>df_clean.
     next_do (emit [Log INFO (''  - Validating '' @ table_name)]) (\<lambda>_.
     next_do (lift (validate E quality df_clean table_name)) (\<lambda>validation_result.
     next_do (emit (if \<not> is_valid validation_result
                    then Log WARNING (''Validation warnings for '' @ table_name @ '':'')
                         # map (\<lambda>warning. Log WARNING (''    - '' @ warning))
                               (warnings validation_result)
                    else [])) (\<lambda>_.
     next_do (emit [Log INFO (''  - Applying business logic to '' @ table_name)]) (\<lambda>_.
     next_do (lift (apply_business_logic E df_clean table_name)) (\<lambda>df_transformed.
     next_do (emit [Log SUCCESS (''Transformed '' @ show_nat (nrows df_transformed)
                                 @ '' records for '' @ table_name),
                    RecordTransformation table_name (nrows df) (nrows df_transformed)
                      (case quality_score validation_result of None \<Rightarrow> 100 | Some q \<Rightarrow> q)])
       (\<lambda>_.
     ret df_transformed))))))))"

fun transform_tables :: "env \<Rightarrow> (string \<times> string) list \<Rightarrow> tables \<Rightarrow> tables \<Rightarrow> tables run" where
  "transform_tables E quality [] transformed_data = (Inr transformed_data, [])"
| "transform_tables E quality ((table_name, df) # rest) transformed_data =
     (case transform_table E quality table_name df of
        (Inr df_transformed, evs) \<Rightarrow>
          (case transform_tables E quality rest
                  (AList.update table_name df_transformed transformed_data) of
             (r, evs') \<Rightarrow> (r, [Log INFO (''Transforming: '' @ table_name)] @ evs @ evs'))
      | (Inl e, evs) \<Rightarrow>
          (Inl e,
           [Log INFO (''Transforming: '' @ table_name)] @ evs
           @ [Log ERROR (''Transformation failed for '' @ table_name @ '': '' @ exn_str e)]
           @ handle_error e [(''table'', table_name), (''phase'', ''transform'')]))"

definition transform_phase :: "env \<Rightarrow> orchestrator \<Rightarrow> tables \<Rightarrow> tables run" where
  "transform_phase E self extracted_data =
     transform_tables E (config_get (config self) ''quality'') extracted_data []"

subsection \<open>Load phase\<close>

fun load_tables :: "env \<Rightarrow> string \<Rightarrow> tables \<Rightarrow> store \<Rightarrow> unit run \<times> store" where
  "load_tables E mode [] S = ((Inr (), []), S)"
| "load_tables E mode ((table_name, df) # rest) S =
     (case (if mode = ''full'' then load_full E S df table_name
            else load_incremental E S df table_name) of
        Inr (records_loaded, S') \<Rightarrow>
          (case load_tables E mode rest S' of
             ((r, evs), S'') \<Rightarrow>
               ((r, [Log INFO (''Loading: '' @ table_name @ '' ('' @ mode @ '' mode)''),
                     Log SUCCESS (''Loaded '' @ show_nat records_loaded @ '' records to ''
                                  @ table_name),
                     RecordLoad table_name records_loaded] @ evs), S''))
      | Inl e \<Rightarrow>
          ((Inl e,
            [Log INFO (''Loading: '' @ table_name @ '' ('' @ mode @ '' mode)''),
             Log ERROR (''Load failed for '' @ table_name @ '': '' @ exn_str e)]
            @ handle_error e [(''table'', table_name), (''phase'', ''load'')]), S))"

definition load_phase :: "env \<Rightarrow> orchestrator \<Rightarrow> tables \<Rightarrow> string \<Rightarrow> store \<Rightarrow> unit run \<times> store" where
  "load_phase E self transformed_data mode S =
     (case bind (dict_item (config self) ''target'') (DatabaseLoader_init E) of
        Inl e \<Rightarrow> ((Inl e, []), S)
      | Inr loader \<Rightarrow> load_tables E mode transformed_data S)"

subsection \<open>Runs\<close>

definition print_summary :: "PipelineMetrics \<Rightarrow> string \<Rightarrow> event list" where
  \<comment> \<open>the numbers of the summary are integers; \<open>:.2f\<close> prints them with two zero decimals\<close>
  "print_summary m run_id =
     (let summary = get_summary m run_id in
      [Log INFO (replicate 60 CHR ''=''),
       Log INFO ''PIPELINE EXECUTION SUMMARY'',
       Log INFO (replicate 60 CHR ''=''),
       Log INFO (''Run ID: '' @ run_id),
       Log INFO (''Status: '' @ status summary),
       Log INFO (''Duration: '' @ show_nat (duration_seconds summary) @ ''.00 seconds''),
       Log INFO (''Records Extracted: '' @ show_nat (total_extracted summary)),
       Log INFO (''Records Loaded: '' @ show_nat (total_loaded summary)),
       Log INFO (''Quality Score: '' @ show_nat (avg_quality_score summary) @ ''.00%''),
       Log INFO (replicate 60 CHR ''='')])"

text \<open>
  The body of the \<open>try\<close> of \<open>run_full_pipeline\<close>. \<open>pre\<close> is what the run has emitted
  before the \<open>try\<close>; the summary is read from the metrics object those calls and the
  calls of the body have reached.
\<close>

definition full_body ::
  "env \<Rightarrow> orchestrator \<Rightarrow> string option \<Rightarrow> string \<Rightarrow> event list \<Rightarrow> store \<Rightarrow> unit run \<times> store" where
  "full_body E self table run_id pre S =
     (case next_do (emit (banner ''PHASE 1: EXTRACT'')) (\<lambda>_. extract_phase E self table) of
        (Inl e, evs1) \<Rightarrow> ((Inl e, evs1), S)
      | (Inr extracted_data, evs1) \<Rightarrow>
          if extracted_data = []
          then ((Inr (), evs1 @ [Log WARNING ''No data extracted. Aborting pipeline.'']), S)
          else
            (case next_do (emit (banner ''PHASE 2: TRANSFORM''))
                    (\<lambda>_. transform_phase E self extracted_data) of
               (Inl e, evs2) \<Rightarrow> ((Inl e, evs1 @ evs2), S)
             | (Inr transformed_data, evs2) \<Rightarrow>
                 (case load_phase E self transformed_data ''full'' S of
                    ((Inl e, evs3), S') \<Rightarrow>
                      ((Inl e, evs1 @ evs2 @ banner ''PHASE 3: LOAD'' @ evs3), S')
                  | ((Inr u, evs3), S') \<Rightarrow>
                      (let done = evs1 @ evs2 @ banner ''PHASE 3: LOAD'' @ evs3
                                  @ [EndPipeline run_id ''SUCCESS'',
                                     Log SUCCESS (''ETL Pipeline completed successfully - Run ID: ''
                                                  @ run_id)]
                       in ((Inr (),
                            done @ print_summary (metrics_after (metrics self) (pre @ done)) run_id),
                           S')))))"

definition run_full_pipeline ::
  "env \<Rightarrow> orchestrator \<Rightarrow> string option \<Rightarrow> store \<Rightarrow> unit run \<times> store" where
  "run_full_pipeline E self table S =
     (let run_id = ''run_'' @ now_stamp E;
          pre = [Log INFO (''Starting full ETL pipeline - Run ID: '' @ run_id),
                 StartPipeline run_id]
      in case full_body E self table run_id pre S of
           ((Inr u, evs), S') \<Rightarrow> ((Inr (), pre @ evs), S')
         | ((Inl e, evs), S') \<Rightarrow>
             ((Inl e,
               pre @ evs
               @ [EndPipeline run_id ''FAILED'',
                  Log ERROR (''Pipeline failed: '' @ exn_str e)]
               @ handle_error e [(''run_id'', run_id)]), S'))"

text \<open>
  The body of the \<open>try\<close> of \<open>run_incremental_pipeline\<close>. Reading \<open>.empty\<close> of \<open>None\<close>
  raises AttributeError.
\<close>

definition incremental_body ::
  "env \<Rightarrow> orchestrator \<Rightarrow> string \<Rightarrow> string \<Rightarrow> store \<Rightarrow> unit run \<times> store" where
  "incremental_body E self table run_id S =
     (case extract_incremental table of
        (extracted_data, evs0) \<Rightarrow>
          (let evs1 = [Log INFO (''Extracting incremental data for '' @ table)] @ evs0 in
           case extracted_data of
             None \<Rightarrow>
               ((Inl (Exn ''AttributeError''
                        (CHR 0x27 # ''NoneType'' @ CHR 0x27 # '' object has no attribute ''
                         @ CHR 0x27 # ''empty'' @ [CHR 0x27])), evs1), S)
           | Some df \<Rightarrow>
               if df_empty df
               then ((Inr (),
                      evs1 @ [Log INFO (''No new/changed records for '' @ table),
                              EndPipeline run_id ''SUCCESS_NO_DATA'']), S)
               else
                 (case transform_phase E self [(table, df)] of
                    (Inl e, evs2) \<Rightarrow> ((Inl e, evs1 @ evs2), S)
                  | (Inr transformed_data, evs2) \<Rightarrow>
                      (case load_phase E self transformed_data ''incremental'' S of
                         ((Inl e, evs3), S') \<Rightarrow> ((Inl e, evs1 @ evs2 @ evs3), S')
                       | ((Inr u, evs3), S') \<Rightarrow>
                           ((Inr (),
                             evs1 @ evs2 @ evs3
                             @ [EndPipeline run_id ''SUCCESS'',
                                Log SUCCESS (''Incremental pipeline completed - Run ID: ''
                                             @ run_id)]), S')))))"

definition run_incremental_pipeline ::
  "env \<Rightarrow> orchestrator \<Rightarrow> string \<Rightarrow> store \<Rightarrow> unit run \<times> store" where
  "run_incremental_pipeline E self table S =
     (let run_id = ''incremental_'' @ table @ ''_'' @ now_stamp E;
          pre = [Log INFO (''Starting incremental ETL pipeline for '' @ table @ '' - Run ID: ''
                           @ run_id),
                 StartPipeline run_id]
      in case incremental_body E self table run_id S of
           ((Inr u, evs), S') \<Rightarrow> ((Inr (), pre @ evs), S')
         | ((Inl e, evs), S') \<Rightarrow>
             ((Inl e,
               pre @ evs
               @ [EndPipeline run_id ''FAILED'',
                  Log ERROR (''Incremental pipeline failed: '' @ exn_str e)]
               @ handle_error e [(''run_id'', run_id), (''table'', table)]), S'))"

subsection \<open>Command line (\<open>main\<close>)\<close>

text \<open>
  The parsed arguments: \<open>--mode\<close> is one of \<open>full\<close> and \<open>incremental\<close> (argparse
  refuses anything else), \<open>--table\<close> is \<open>None\<close> when it is not given.
  \<open>main\<close> returns the exit code of the process: \<open>sys.exit(1)\<close> raises SystemExit, which
  \<open>except Exception\<close> does not catch; leaving \<open>main\<close> normally exits with 0.
\<close>

record args =
  args_mode :: string
  args_table :: "string option"
  args_config :: string

definition main :: "env \<Rightarrow> args \<Rightarrow> store \<Rightarrow> nat \<times> event list \<times> store" where
  "main E a S =
     (case ETLOrchestrator_init E (args_config a) of
        (Inl e, evs) \<Rightarrow>
          (1, evs @ [Log ERROR (''Pipeline execution failed: '' @ exn_str e)], S)
      | (Inr orch, evs) \<Rightarrow>
          if args_mode a = ''full'' then
            (case run_full_pipeline E orch (args_table a) S of
               ((Inr u, evs'), S') \<Rightarrow> (0, evs @ evs', S')
             | ((Inl e, evs'), S') \<Rightarrow>
                 (1, evs @ evs' @ [Log ERROR (''Pipeline execution failed: '' @ exn_str e)], S'))
          else
            (case args_table a of
               None \<Rightarrow> (1, evs @ [Log ERROR ''--table is required for incremental mode''], S)
             | Some t \<Rightarrow>
                 if t = [] then
                   (1, evs @ [Log ERROR ''--table is required for incremental mode''], S)
                 else
                   (case run_incremental_pipeline E orch t S of
                      ((Inr u, evs'), S') \<Rightarrow> (0, evs @ evs', S')
                    | ((Inl e, evs'), S') \<Rightarrow>
                        (1, evs @ evs'
                            @ [Log ERROR (''Pipeline execution failed: '' @ exn_str e)], S'))))"

section \<open>A sample environment\<close>

text \<open>
  A small world to run the model in: a source directory \<open>data\<close> with \<open>orders.csv\<close> and
  \<open>inventory.csv\<close> but no \<open>customers.csv\<close>, a SQLite database with a products
  table, a cleaner that returns its input, and a validator that finds every table invalid.
\<close>

definition day1 :: timestamp where
  "day1 = \<lparr>ts_year = 2024, ts_month = 3, ts_day = 9\<rparr>"

definition orders_csv :: dataframe where
  "orders_csv =
     \<lparr>columns = [(''order_id'', Numeric [Some 1, Some 2]),
                 (''order_date'', Datetime [Some day1, None])],
      nrows = 2\<rparr>"

definition inventory_csv :: dataframe where
  "inventory_csv =
     \<lparr>columns = [(''sku'', Object [Some ''a17'']),
                 (''_source_file'', Object [Some ''legacy.csv''])],
      nrows = 1\<rparr>"

definition products_db :: dataframe where
  "products_db = \<lparr>columns = [(''name'', Object [Some ''bolt'', Some ''nut'', None])], nrows = 3\<rparr>"

definition no_arith :: "series \<Rightarrow> series \<Rightarrow> exn + series" where
  "no_arith a b = Inl (Exn ''TypeError'' ''unsupported operand'')"

definition sample_env :: env where
  "sample_env =
     \<lparr>now_stamp = ''20240309_101500'',
      timestamp_now = day1,
      read_yaml = (\<lambda>p. if p = ''config/config.yaml''
                        then Inr [(''source'', [(''csv_path'', ''data''), (''sqlite_db'', ''shop.db'')]),
                                  (''target'', [(''user'', ''etl''), (''password'', ''pw''),
                                                (''host'', ''localhost''), (''port'', ''5432''),
                                                (''database'', ''dw'')])]
                        else Inl (Exn ''FileNotFoundError'' p)),
      logger_add = (\<lambda>sink lvl. None),
      path_exists = (\<lambda>p. p \<in> {''data'', ''data/orders.csv'', ''data/inventory.csv''}),
      read_csv = (\<lambda>p dates. if p = ''data/orders.csv'' then Inr orders_csv
                              else if p = ''data/inventory.csv'' then Inr inventory_csv
                              else Inl (Exn ''EmptyDataError'' ''No columns to parse from file'')),
      read_sql_query = (\<lambda>db q. Inr products_db),
      clean = (\<lambda>df t. Inr df),
      validate = (\<lambda>quality df t.
                    Inr \<lparr>is_valid = False, warnings = [''too many nulls''],
                         quality_score = Some 40\<rparr>),
      series_mul = no_arith,
      series_sub = no_arith,
      series_div = no_arith,
      series_times = (\<lambda>s k. Inr s),
      series_round = (\<lambda>s k. Inr s),
      str_lower = Inr,
      str_strip = Inr,
      create_engine = (\<lambda>url. None),
      to_sql_error = (\<lambda>S t df how. None)\<rparr>"

definition sample_orchestrator :: orchestrator where
  "sample_orchestrator =
     \<lparr>config = [(''source'', [(''csv_path'', ''data''), (''sqlite_db'', ''shop.db'')]),
                (''target'', [(''user'', ''etl''), (''password'', ''pw''),
                              (''host'', ''localhost''), (''port'', ''5432''),
                              (''database'', ''dw'')])],
      metrics = PipelineMetrics\<rparr>"

section \<open>Observations on a run\<close>

text \<open>The \<open>end_pipeline\<close> and \<open>start_pipeline\<close> calls among the events of a run, in order.\<close>

fun end_call :: "event \<Rightarrow> (string \<times> string) list" where
  "end_call (EndPipeline run_id st) = [(run_id, st)]"
| "end_call ev = []"

definition end_calls :: "event list \<Rightarrow> (string \<times> string) list" where
  "end_calls evs = concat (map end_call evs)"

fun start_call :: "event \<Rightarrow> string list" where
  "start_call (StartPipeline run_id) = [run_id]"
| "start_call ev = []"

definition start_calls :: "event list \<Rightarrow> string list" where
  "start_calls evs = concat (map start_call evs)"

text \<open>
  The row counts handed to \<open>record_extraction\<close>, summed: what the specification expects
  \<open>total_extracted\<close> to be.
\<close>

fun extraction_count :: "event \<Rightarrow> nat" where
  "extraction_count (RecordExtraction t c) = c"
| "extraction_count ev = 0"

definition recorded_extracted :: "event list \<Rightarrow> nat" where
  "recorded_extracted evs = sum_list (map extraction_count evs)"

text \<open>
  The extraction attempts of a full run, in the order the extract phase makes them, each
  with the table's name and its outcome: the CSV tables, then products from SQLite when
  no table or products was asked for.
\<close>

definition attempts ::
  "env \<Rightarrow> string \<Rightarrow> string \<Rightarrow> string option \<Rightarrow> (string \<times> (exn + dataframe)) list" where
  "attempts E csv_path sqlite_db table =
     map (\<lambda>t. (t, fst (CSVExtractor_extract E csv_path t))) (csv_tables table)
     @ (if table = None \<or> table = Some ''products''
        then [(''products'', extract_table E sqlite_db ''sqlite'' ''products'')]
        else [])"

text \<open>The datasets of the attempts that succeeded, entered into a dict in that order.\<close>

fun extracted_of :: "(string \<times> (exn + dataframe)) list \<Rightarrow> tables \<Rightarrow> tables" where
  "extracted_of [] acc = acc"
| "extracted_of ((t, Inr df) # rest) acc = extracted_of rest (AList.update t df acc)"
| "extracted_of ((t, Inl e) # rest) acc = extracted_of rest acc"

text \<open>
  The same world with the source directory empty and no products table in SQLite:
  every extraction of a full run fails.
\<close>

definition barren_env :: env where
  "barren_env =
     sample_env\<lparr>path_exists := (\<lambda>p. p = ''data''),
                 read_sql_query := (\<lambda>db q. Inl (Exn ''DatabaseError'' ''no such table: products''))\<rparr>"

text \<open>
  The outcome of the \<open>try\<close> body of a full run, its \<open>end_pipeline\<close> calls and the
  target store it leaves, in terms of the three phases.
\<close>

definition full_outcome :: "env \<Rightarrow> orchestrator \<Rightarrow> string option \<Rightarrow> store \<Rightarrow> exn + unit" where
  "full_outcome E self table S =
     bind (fst (extract_phase E self table)) (\<lambda>data.
       if data = [] then Inr ()
       else bind (fst (transform_phase E self data)) (\<lambda>td.
              fst (fst (load_phase E self td ''full'' S))))"

definition full_loaded :: "env \<Rightarrow> orchestrator \<Rightarrow> string option \<Rightarrow> store \<Rightarrow> bool" where
  "full_loaded E self table S =
     (\<exists>data td. fst (extract_phase E self table) = Inr data \<and> data \<noteq> []
        \<and> fst (transform_phase E self data) = Inr td
        \<and> fst (fst (load_phase E self td ''full'' S)) = Inr ())"

text \<open>
  The sample world with a cleaner that fails on products.
\<close>

definition failing_clean_env :: env where
  "failing_clean_env =
     sample_env\<lparr>clean := (\<lambda>df t. if t = ''products''
                                   then Inl (Exn ''ValueError'' ''bad row'')
                                   else Inr df)\<rparr>"

section \<open>Properties of the business rules\<close>

lemma bind_Inl [simp]: "bind (Inl e) f = Inl e"
  by (simp add: bind_def)

lemma bind_Inr [simp]: "bind (Inr x) f = f x"
  by (simp add: bind_def)

lemma bind_eq_Inr: "bind m f = Inr y \<longleftrightarrow> (\<exists>x. m = Inr x \<and> f x = Inr y)"
  by (cases m) simp_all

lemma bind_isl: "isl (bind m f) \<longleftrightarrow> isl m \<or> (\<exists>x. m = Inr x \<and> isl (f x))"
  by (cases m) simp_all

lemma getitem_setitem_other: "c \<noteq> c' \<Longrightarrow> getitem (setitem df c' s) c = getitem df c"
  by (simp add: getitem_def setitem_def update_conv')

lemma getitem_setitem_same: "getitem (setitem df c s) c = Inr s"
  by (simp add: getitem_def setitem_def update_conv')

lemma dt_year_Inr: "dt_year s = Inr y \<Longrightarrow> \<exists>ts. s = Datetime ts"
  by (cases s) simp_all

text \<open>
  C7. For every dataset and every table name other than orders, customers and products,
  the business rules return the dataset as it is, without raising.
\<close>

theorem apply_business_logic_default_identity:
  assumes "table_name \<notin> {''orders'', ''customers'', ''products''}"
  shows "apply_business_logic E df table_name = Inr df"
  using assms by (simp add: apply_business_logic_def)

theorem apply_business_logic_default_identity_witness:
  "''inventory'' \<notin> {''orders'', ''customers'', ''products''}
   \<and> apply_business_logic sample_env inventory_csv ''inventory'' = Inr inventory_csv"
  using apply_business_logic_default_identity [of "''inventory''" sample_env inventory_csv]
  by simp

lemma getitem_Inr_has: "getitem df c = Inr s \<Longrightarrow> has_column df c"
  by (auto simp: getitem_def has_column_def split: option.splits dest: map_of_SomeD
           intro: rev_image_eqI)

lemma has_getitem: "has_column df c \<Longrightarrow> \<exists>s. getitem df c = Inr s"
  by (cases "map_of (columns df) c") (auto simp: getitem_def has_column_def map_of_eq_None_iff)

lemma dt_month_Inr: "dt_month s = Inr y \<Longrightarrow> \<exists>ts. s = Datetime ts"
  by (cases s) simp_all

lemma orders_total_keeps_order_date:
  "(if has_column df ''quantity'' \<and> has_column df ''unit_price''
    then bind (getitem df ''quantity'') (\<lambda>q.
         bind (getitem df ''unit_price'') (\<lambda>p.
         bind (series_mul E q p) (\<lambda>total.
         Inr (setitem df ''total_amount'' total))))
    else Inr df) = Inr df1 \<Longrightarrow> getitem df1 ''order_date'' = getitem df ''order_date''"
  by (auto simp: bind_eq_Inr getitem_setitem_other split: if_splits)

text \<open>
  C9. For the table orders the business rules read the column \<open>order_date\<close> without a
  presence check: whenever the dataset has no \<open>order_date\<close> column of datetime dtype the
  call raises, whatever else the dataset holds. The columns \<open>quantity\<close> and
  \<open>unit_price\<close> are guarded: with a datetime \<open>order_date\<close>, their absence raises nothing.
\<close>

theorem apply_business_logic_orders_order_date:
  "(\<not> (\<exists>ts. getitem df ''order_date'' = Inr (Datetime ts))
      \<longrightarrow> isl (apply_business_logic E df ''orders''))
   \<and> ((\<exists>ts. getitem df ''order_date'' = Inr (Datetime ts))
        \<and> \<not> (has_column df ''quantity'' \<and> has_column df ''unit_price'')
      \<longrightarrow> \<not> isl (apply_business_logic E df ''orders''))"
proof (intro conjI impI)
  assume no: "\<not> (\<exists>ts. getitem df ''order_date'' = Inr (Datetime ts))"
  show "isl (apply_business_logic E df ''orders'')"
  proof (rule ccontr)
    assume "\<not> isl (apply_business_logic E df ''orders'')"
    then obtain r where r: "apply_business_logic E df ''orders'' = Inr r"
      by (cases "apply_business_logic E df ''orders''") auto
    then obtain df1 d y where
      s1: "(if has_column df ''quantity'' \<and> has_column df ''unit_price''
              then bind (getitem df ''quantity'') (\<lambda>q.
                   bind (getitem df ''unit_price'') (\<lambda>p.
                   bind (series_mul E q p) (\<lambda>total.
                   Inr (setitem df ''total_amount'' total))))
              else Inr df) = Inr df1"
      and s2: "getitem df1 ''order_date'' = Inr d" and s3: "dt_year d = Inr y"
      unfolding apply_business_logic_def by (auto simp: bind_eq_Inr)
    from s3 obtain ts where "d = Datetime ts" by (auto dest: dt_year_Inr)
    with s2 orders_total_keeps_order_date[OF s1] no show False by simp
  qed
next
  assume h: "(\<exists>ts. getitem df ''order_date'' = Inr (Datetime ts))
        \<and> \<not> (has_column df ''quantity'' \<and> has_column df ''unit_price'')"
  then obtain ts where ts: "getitem df ''order_date'' = Inr (Datetime ts)" by blast
  from h have g: "\<not> (has_column df ''quantity'' \<and> has_column df ''unit_price'')" by blast
  show "\<not> isl (apply_business_logic E df ''orders'')"
    using ts g by (auto simp add: apply_business_logic_def getitem_setitem_other Let_def)
qed

theorem apply_business_logic_orders_order_date_witness:
  "isl (apply_business_logic sample_env products_db ''orders'')
   \<and> \<not> isl (apply_business_logic sample_env orders_csv ''orders'')"
  using apply_business_logic_orders_order_date [of products_db sample_env]
        apply_business_logic_orders_order_date [of orders_csv sample_env]
  by (simp add: getitem_def has_column_def products_db_def orders_csv_def)

section \<open>Properties of the metrics collector\<close>

lemma metrics_after_const: "metrics_after m evs = m"
proof -
  have "\<And>ev. metrics_call m ev = m"
    subgoal for ev
      by (cases ev) (simp_all add: start_pipeline_def end_pipeline_def record_extraction_def
                                   record_transformation_def record_load_def)
    done
  then have "foldl metrics_call m evs = m" by (induction evs) simp_all
  then show ?thesis by (simp add: metrics_after_def)
qed

text \<open>
  C4, as the code has it. Whatever calls have reached the metrics collector and for every
  run id, \<open>get_summary\<close> returns, without raising, the same literal summary: status
  SUCCESS, duration 0, \<open>total_extracted\<close> 0, \<open>total_loaded\<close> 0 and
  \<open>avg_quality_score\<close> 100. Nothing is aggregated over the recorded calls.
\<close>

theorem get_summary_is_constant:
  "get_summary (metrics_after m evs) run_id =
     \<lparr>status = ''SUCCESS'', duration_seconds = 0, total_extracted = 0,
      total_loaded = 0, avg_quality_score = 100\<rparr>"
  by (simp add: get_summary_def)

text \<open>
  C4, as the claim states it, fails: after extractions of 10 and 20 rows have been
  recorded for a run, its \<open>total_extracted\<close> is 0, not 30; and with nothing recorded
  the aggregate \<open>avg_quality_score\<close> is 100, not zero.
\<close>

theorem get_summary_total_extracted_counterexample:
  "recorded_extracted [StartPipeline ''run_1'', RecordExtraction ''orders'' 10,
                       RecordExtraction ''products'' 20] = 30
   \<and> total_extracted
        (get_summary
           (metrics_after PipelineMetrics
              [StartPipeline ''run_1'', RecordExtraction ''orders'' 10,
               RecordExtraction ''products'' 20]) ''run_1'') = 0
   \<and> avg_quality_score (get_summary (metrics_after PipelineMetrics []) ''run_1'') = 100"
  by (simp add: get_summary_def recorded_extracted_def)

section \<open>Properties of the runs\<close>

lemma end_calls_simps [simp]:
  "end_calls [] = []"
  "end_calls (ev # evs) = end_call ev @ end_calls evs"
  "end_calls (xs @ ys) = end_calls xs @ end_calls ys"
  by (simp_all add: end_calls_def)

lemma start_calls_simps [simp]:
  "start_calls [] = []"
  "start_calls (ev # evs) = start_call ev @ start_calls evs"
  "start_calls (xs @ ys) = start_calls xs @ start_calls ys"
  by (simp_all add: start_calls_def)

lemma handle_error_calls [simp]:
  "end_calls (handle_error e ctx) = []" "start_calls (handle_error e ctx) = []"
  by (simp_all add: handle_error_def)

subsection \<open>Incremental runs\<close>

text \<open>
  Every incremental run, for every table and environment, takes the same path:
  \<open>_extract_incremental\<close> returns \<open>None\<close>, reading \<open>.empty\<close> raises, the run is
  ended as FAILED and the exception is re-raised. The branch that ends the run as
  SUCCESS\_NO\_DATA is never reached.
\<close>

lemma run_incremental_pipeline_fails:
  "run_incremental_pipeline E self t S =
     ((Inl (Exn ''AttributeError''
              (CHR 0x27 # ''NoneType'' @ CHR 0x27 # '' object has no attribute ''
               @ CHR 0x27 # ''empty'' @ [CHR 0x27])),
       [Log INFO (''Starting incremental ETL pipeline for '' @ t @ '' - Run ID: ''
                  @ ''incremental_'' @ t @ ''_'' @ now_stamp E),
        StartPipeline (''incremental_'' @ t @ ''_'' @ now_stamp E),
        Log INFO (''Extracting incremental data for '' @ t),
        Log INFO (''Incremental extraction for '' @ t @ '' (CDC/timestamp-based)''),
        EndPipeline (''incremental_'' @ t @ ''_'' @ now_stamp E) ''FAILED'',
        Log ERROR (''Incremental pipeline failed: ''
                   @ CHR 0x27 # ''NoneType'' @ CHR 0x27 # '' object has no attribute ''
                   @ CHR 0x27 # ''empty'' @ [CHR 0x27]),
        HandleError (Exn ''AttributeError''
              (CHR 0x27 # ''NoneType'' @ CHR 0x27 # '' object has no attribute ''
               @ CHR 0x27 # ''empty'' @ [CHR 0x27]))
          [(''run_id'', ''incremental_'' @ t @ ''_'' @ now_stamp E), (''table'', t)]]), S)"
  by (simp add: run_incremental_pipeline_def incremental_body_def extract_incremental_def
                handle_error_def Let_def)

text \<open>
  C3. The code at the table orders: the delta fetch returns nothing, and the incremental
  run raises AttributeError with \<open>end_pipeline(run_id, "FAILED")\<close> as its only
  \<open>end_pipeline\<close> call, where the claim has SUCCESS\_NO\_DATA and a normal return.
\<close>

theorem run_incremental_pipeline_orders_fails:
  "fst (fst (run_incremental_pipeline sample_env sample_orchestrator ''orders'' Map.empty))
     = Inl (Exn ''AttributeError''
              (CHR 0x27 # ''NoneType'' @ CHR 0x27 # '' object has no attribute ''
               @ CHR 0x27 # ''empty'' @ [CHR 0x27]))
   \<and> end_calls (snd (fst (run_incremental_pipeline sample_env sample_orchestrator ''orders''
                              Map.empty)))
     = [(''incremental_orders_20240309_101500'', ''FAILED'')]"
  by (simp add: run_incremental_pipeline_fails sample_env_def)

subsection \<open>The command line\<close>

lemma init_start_calls:
  "start_calls (snd (ETLOrchestrator_init E p)) = []"
  by (simp add: ETLOrchestrator_init_def next_do_def lift_def emit_def ret_def
           split: sum.splits prod.splits)

text \<open>
  C6. With mode incremental and no \<open>--table\<close>, \<open>main\<close> exits with code 1, the last
  thing it does before exiting is to log an error message, \<open>start_pipeline\<close> is never
  called, and the target store is untouched. This holds whether or not the orchestrator
  could be constructed.
\<close>

theorem main_incremental_requires_table:
  assumes "args_mode a = ''incremental''" and "args_table a = None"
  shows "fst (main E a S) = 1
         \<and> (\<exists>msg. last (fst (snd (main E a S))) = Log ERROR msg)
         \<and> start_calls (fst (snd (main E a S))) = []
         \<and> snd (snd (main E a S)) = S"
proof (cases "ETLOrchestrator_init E (args_config a)")
  case (Pair r evs)
  have sc: "start_calls evs = []" using init_start_calls[of E "args_config a"] Pair by simp
  show ?thesis
  proof (cases r)
    case (Inl e)
    with Pair sc show ?thesis by (simp add: main_def)
  next
    case (Inr orch)
    with Pair sc assms show ?thesis by (simp add: main_def)
  qed
qed

theorem main_incremental_requires_table_witness:
  "args_mode \<lparr>args_mode = ''incremental'', args_table = None,
              args_config = ''config/config.yaml''\<rparr> = ''incremental''
   \<and> fst (main sample_env \<lparr>args_mode = ''incremental'', args_table = None,
                            args_config = ''config/config.yaml''\<rparr> Map.empty) = 1
   \<and> start_calls (fst (snd (main sample_env \<lparr>args_mode = ''incremental'', args_table = None,
                            args_config = ''config/config.yaml''\<rparr> Map.empty))) = []"
  using main_incremental_requires_table
          [of "\<lparr>args_mode = ''incremental'', args_table = None,
                args_config = ''config/config.yaml''\<rparr>" sample_env Map.empty]
  by simp

subsection \<open>Full runs\<close>

text \<open>
  C2. The code on the path where nothing is extracted: in a world where every extraction
  fails, the full run calls \<open>start_pipeline\<close>, returns normally, and has made no
  \<open>end_pipeline\<close> call at all, so the run is left RUNNING. The claim has exactly one
  \<open>end_pipeline\<close> call with a terminal status on this path too.
\<close>

theorem run_full_pipeline_no_data_never_ended:
  "fst (fst (run_full_pipeline barren_env sample_orchestrator None Map.empty)) = Inr ()
   \<and> start_calls (snd (fst (run_full_pipeline barren_env sample_orchestrator None Map.empty)))
       = [''run_20240309_101500'']
   \<and> end_calls (snd (fst (run_full_pipeline barren_env sample_orchestrator None Map.empty)))
       = []"
  by (simp add: run_full_pipeline_def full_body_def extract_phase_def next_do_def emit_def
        lift_def ret_def banner_def CSVExtractor_init_def csv_tables_def CSVExtractor_extract_def
        extract_products_def extract_table_def handle_error_def dict_item_def config_item_def
        barren_env_def sample_env_def sample_orchestrator_def Let_def)

subsection \<open>The extract phase\<close>

lemma next_do_simps [simp]:
  "next_do (Inl e, evs) f = (Inl e, evs)"
  "next_do (Inr x, evs) f = (fst (f x), evs @ snd (f x))"
  "next_do (emit evs) g = (fst (g ()), evs @ snd (g ()))"
  "next_do (lift (Inl e)) f = (Inl e, [])"
  "next_do (lift (Inr x)) f = f x"
  by (simp_all add: next_do_def emit_def lift_def split: prod.splits)

lemma extract_events [simp]:
  "end_calls (snd (CSVExtractor_extract E p t)) = []"
  "start_calls (snd (CSVExtractor_extract E p t)) = []"
  by (simp_all add: CSVExtractor_extract_def Let_def split: sum.splits)

lemma extract_csv_tables_calls:
  "end_calls (snd (extract_csv_tables E p ts acc)) = []
   \<and> start_calls (snd (extract_csv_tables E p ts acc)) = []"
proof (induction ts arbitrary: acc)
  case Nil
  show ?case by simp
next
  case (Cons t ts)
  obtain r evs where x: "CSVExtractor_extract E p t = (r, evs)" by (cases "CSVExtractor_extract E p t")
  have evs: "end_calls evs = []" "start_calls evs = []"
    using extract_events[of E p t] x by simp_all
  show ?case
  proof (cases r)
    case (Inl e)
    obtain res evs' where y: "extract_csv_tables E p ts acc = (res, evs')"
      by (cases "extract_csv_tables E p ts acc")
    with Cons.IH[of acc] have "end_calls evs' = []" "start_calls evs' = []" by simp_all
    with x Inl y evs show ?thesis by simp
  next
    case (Inr df)
    obtain res evs' where y: "extract_csv_tables E p ts (AList.update t df acc) = (res, evs')"
      by (cases "extract_csv_tables E p ts (AList.update t df acc)")
    with Cons.IH[of "AList.update t df acc"] have "end_calls evs' = []" "start_calls evs' = []"
      by simp_all
    with x Inr y evs show ?thesis by simp
  qed
qed

lemma extract_csv_tables_result:
  "fst (extract_csv_tables E p ts acc)
     = extracted_of (map (\<lambda>t. (t, fst (CSVExtractor_extract E p t))) ts) acc"
proof (induction ts arbitrary: acc)
  case Nil
  show ?case by simp
next
  case (Cons t ts)
  obtain r evs where x: "CSVExtractor_extract E p t = (r, evs)"
    by (cases "CSVExtractor_extract E p t")
  show ?case
  proof (cases r)
    case (Inl e)
    obtain res evs' where y: "extract_csv_tables E p ts acc = (res, evs')"
      by (cases "extract_csv_tables E p ts acc")
    with x Inl Cons.IH[of acc] show ?thesis by simp
  next
    case (Inr df)
    obtain res evs' where y: "extract_csv_tables E p ts (AList.update t df acc) = (res, evs')"
      by (cases "extract_csv_tables E p ts (AList.update t df acc)")
    with x Inr Cons.IH[of "AList.update t df acc"] show ?thesis by simp
  qed
qed

lemma extracted_of_append:
  "extracted_of (xs @ ys) acc = extracted_of ys (extracted_of xs acc)"
  by (induction xs acc rule: extracted_of.induct) simp_all

lemma extract_products_result:
  "fst (extract_products E db acc)
     = extracted_of [(''products'', extract_table E db ''sqlite'' ''products'')] acc"
  by (simp add: extract_products_def split: sum.splits)

lemma extract_products_calls [simp]:
  "end_calls (snd (extract_products E db acc)) = []"
  "start_calls (snd (extract_products E db acc)) = []"
  by (simp_all add: extract_products_def split: sum.splits)

lemma CSVExtractor_init_calls [simp]:
  "end_calls (snd (CSVExtractor_init E p)) = []"
  "start_calls (snd (CSVExtractor_init E p)) = []"
  by (simp_all add: CSVExtractor_init_def)

lemma extract_phase_shape:
  assumes "config_item (config self) ''source'' ''csv_path'' = Inr csv_path"
      and "path_exists E csv_path"
      and "table = None \<or> table = Some ''products''
           \<longrightarrow> config_item (config self) ''source'' ''sqlite_db'' = Inr sqlite_db"
  shows "fst (extract_phase E self table)
           = Inr (extracted_of (attempts E csv_path sqlite_db table) [])"
proof -
  obtain d evs where c: "extract_csv_tables E csv_path (csv_tables table) [] = (d, evs)"
    by (cases "extract_csv_tables E csv_path (csv_tables table) []")
  have d: "d = extracted_of (map (\<lambda>t. (t, fst (CSVExtractor_extract E csv_path t)))
                                 (csv_tables table)) []"
    using extract_csv_tables_result[of E csv_path "csv_tables table" "[]"] c by simp
  show ?thesis
  proof (cases "table = None \<or> table = Some ''products''")
    case True
    obtain d' evs' where q: "extract_products E sqlite_db d = (d', evs')"
      by (cases "extract_products E sqlite_db d")
    have d': "d' = extracted_of [(''products'', extract_table E sqlite_db ''sqlite'' ''products'')] d"
      using extract_products_result[of E sqlite_db d] q by simp
    from True assms c q have "fst (extract_phase E self table) = Inr d'"
      by (simp add: extract_phase_def CSVExtractor_init_def ret_def)
    with d d' True show ?thesis by (simp add: attempts_def extracted_of_append)
  next
    case False
    with assms c have "fst (extract_phase E self table) = Inr d"
      by (auto simp add: extract_phase_def CSVExtractor_init_def ret_def)
    with d False show ?thesis by (auto simp add: attempts_def)
  qed
qed

lemma extract_phase_calls:
  "end_calls (snd (extract_phase E self table)) = []
   \<and> start_calls (snd (extract_phase E self table)) = []"
proof (cases "config_item (config self) ''source'' ''csv_path''")
  case (Inl e)
  then show ?thesis by (simp add: extract_phase_def)
next
  case (Inr p)
  show ?thesis
  proof (cases "path_exists E p")
    case False
    with Inr show ?thesis by (simp add: extract_phase_def CSVExtractor_init_def)
  next
    case True
    obtain d evs where c: "extract_csv_tables E p (csv_tables table) [] = (d, evs)"
      by (cases "extract_csv_tables E p (csv_tables table) []")
    have evs: "end_calls evs = []" "start_calls evs = []"
      using extract_csv_tables_calls[of E p "csv_tables table" "[]"] c by simp_all
    show ?thesis
    proof (cases "table = None \<or> table = Some ''products''")
      case False
      with Inr True c evs show ?thesis
        by (auto simp add: extract_phase_def CSVExtractor_init_def ret_def)
    next
      case tp: True
      show ?thesis
      proof (cases "config_item (config self) ''source'' ''sqlite_db''")
        case (Inl e)
        with Inr True c evs tp show ?thesis
          by (simp add: extract_phase_def CSVExtractor_init_def ret_def)
      next
        case db: (Inr db)
        obtain d' evs' where q: "extract_products E db d = (d', evs')"
          by (cases "extract_products E db d")
        have "end_calls evs' = []" "start_calls evs' = []"
          using extract_products_calls[of E db d] q by simp_all
        with Inr True c evs tp db q show ?thesis
          by (simp add: extract_phase_def CSVExtractor_init_def ret_def)
      qed
    qed
  qed
qed

subsection \<open>The transform and load phases\<close>

lemma transform_table_result:
  "fst (transform_table E q t df)
     = bind (clean E df t) (\<lambda>dc. bind (validate E q dc t) (\<lambda>v. apply_business_logic E dc t))"
proof (cases "clean E df t")
  case (Inl e)
  then show ?thesis by (simp add: transform_table_def)
next
  case (Inr dc)
  show ?thesis
  proof (cases "validate E q dc t")
    case (Inl e)
    with Inr show ?thesis by (simp add: transform_table_def)
  next
    case v: (Inr v)
    show ?thesis
    proof (cases "apply_business_logic E dc t")
      case (Inl e)
      with Inr v show ?thesis by (simp add: transform_table_def)
    next
      case (Inr dft)
      with \<open>clean E df t = Inr dc\<close> v show ?thesis by (simp add: transform_table_def ret_def)
    qed
  qed
qed

lemma transform_table_calls:
  "end_calls (snd (transform_table E q t df)) = []
   \<and> start_calls (snd (transform_table E q t df)) = []"
proof (cases "clean E df t")
  case (Inl e)
  then show ?thesis by (simp add: transform_table_def)
next
  case (Inr dc)
  show ?thesis
  proof (cases "validate E q dc t")
    case (Inl e)
    with Inr show ?thesis by (simp add: transform_table_def)
  next
    case v: (Inr v)
    have w: "end_calls (map (\<lambda>warning. Log WARNING (''    - '' @ warning)) ws) = []
             \<and> start_calls (map (\<lambda>warning. Log WARNING (''    - '' @ warning)) ws) = []" for ws
      by (induction ws) simp_all
    show ?thesis
    proof (cases "apply_business_logic E dc t")
      case (Inl e)
      with Inr v w show ?thesis by (simp add: transform_table_def)
    next
      case (Inr dft)
      with \<open>clean E df t = Inr dc\<close> v w show ?thesis by (simp add: transform_table_def ret_def)
    qed
  qed
qed

lemma transform_tables_calls:
  "end_calls (snd (transform_tables E q data acc)) = []
   \<and> start_calls (snd (transform_tables E q data acc)) = []"
proof (induction data arbitrary: acc)
  case Nil
  show ?case by simp
next
  case (Cons x data)
  obtain t df where x: "x = (t, df)" by (cases x)
  obtain r evs where tt: "transform_table E q t df = (r, evs)" by (cases "transform_table E q t df")
  have evs: "end_calls evs = []" "start_calls evs = []"
    using transform_table_calls[of E q t df] tt by simp_all
  show ?case
  proof (cases r)
    case (Inl e)
    with x tt evs show ?thesis by simp
  next
    case (Inr dft)
    obtain r' evs' where y: "transform_tables E q data (AList.update t dft acc) = (r', evs')"
      by (cases "transform_tables E q data (AList.update t dft acc)")
    with Cons.IH[of "AList.update t dft acc"] have "end_calls evs' = []" "start_calls evs' = []"
      by simp_all
    with x tt evs Inr y show ?thesis by simp
  qed
qed

lemma transform_tables_Cons:
  "fst (transform_tables E q ((t, df) # data) acc)
     = bind (fst (transform_table E q t df))
         (\<lambda>dft. fst (transform_tables E q data (AList.update t dft acc)))"
proof -
  obtain r evs where tt: "transform_table E q t df = (r, evs)" by (cases "transform_table E q t df")
  show ?thesis
  proof (cases r)
    case (Inl e)
    with tt show ?thesis by simp
  next
    case (Inr dft)
    obtain r' evs' where y: "transform_tables E q data (AList.update t dft acc) = (r', evs')"
      by (cases "transform_tables E q data (AList.update t dft acc)")
    with tt Inr show ?thesis by simp
  qed
qed

lemma transform_tables_keys:
  "fst (transform_tables E q data acc) = Inr td
   \<Longrightarrow> fst ` set td = fst ` set acc \<union> fst ` set data"
proof (induction data arbitrary: acc)
  case Nil
  then show ?case by simp
next
  case (Cons x data)
  obtain t df where x: "x = (t, df)" by (cases x)
  from Cons.prems x obtain dft where
    "fst (transform_tables E q data (AList.update t dft acc)) = Inr td"
    by (auto simp: transform_tables_Cons bind_eq_Inr simp del: transform_tables.simps)
  from Cons.IH[OF this] x show ?case by (auto simp: dom_update)
qed

lemma transform_tables_other:
  "fst (transform_tables E q data acc) = Inr td \<Longrightarrow> t \<notin> fst ` set data
   \<Longrightarrow> map_of td t = map_of acc t"
proof (induction data arbitrary: acc)
  case Nil
  then show ?case by simp
next
  case (Cons x data)
  obtain t' df where x: "x = (t', df)" by (cases x)
  from Cons.prems x obtain dft where
    r: "fst (transform_tables E q data (AList.update t' dft acc)) = Inr td"
    by (auto simp: transform_tables_Cons bind_eq_Inr simp del: transform_tables.simps)
  from Cons.prems x have "t \<noteq> t'" "t \<notin> fst ` set data" by auto
  with Cons.IH[OF r] show ?case by (simp add: update_conv')
qed

lemma transform_tables_entry:
  "fst (transform_tables E q data acc) = Inr td \<Longrightarrow> distinct (map fst data)
   \<Longrightarrow> (t, df) \<in> set data
   \<Longrightarrow> \<exists>dft. fst (transform_table E q t df) = Inr dft \<and> map_of td t = Some dft"
proof (induction data arbitrary: acc)
  case Nil
  then show ?case by simp
next
  case (Cons x data)
  obtain t' df' where x: "x = (t', df')" by (cases x)
  from Cons.prems(1) x obtain dft where
    h: "fst (transform_table E q t' df') = Inr dft"
    and r: "fst (transform_tables E q data (AList.update t' dft acc)) = Inr td"
    by (auto simp: transform_tables_Cons bind_eq_Inr simp del: transform_tables.simps)
  show ?case
  proof (cases "(t, df) = (t', df')")
    case True
    from Cons.prems(2) x have "t' \<notin> fst ` set data" by simp
    from transform_tables_other[OF r this] have "map_of td t' = Some dft"
      by (simp add: update_conv')
    with True h show ?thesis by auto
  next
    case False
    with Cons.prems x have "(t, df) \<in> set data" "distinct (map fst data)" by auto
    from Cons.IH[OF r this(2) this(1)] show ?thesis .
  qed
qed

lemma load_one_calls:
  "end_calls (snd (fst (load_tables E m td S))) = []
   \<and> start_calls (snd (fst (load_tables E m td S))) = []"
proof (induction td arbitrary: S)
  case Nil
  show ?case by simp
next
  case (Cons x td)
  obtain t df where x: "x = (t, df)" by (cases x)
  show ?case
  proof (cases "if m = ''full'' then load_full E S df t else load_incremental E S df t")
    case (Inl e)
    with x show ?thesis by simp
  next
    case (Inr p)
    obtain n S' where p: "p = (n, S')" by (cases p)
    obtain r evs S'' where y: "load_tables E m td S' = ((r, evs), S'')"
      by (cases "load_tables E m td S'") auto
    with Cons.IH[of S'] have "end_calls evs = []" "start_calls evs = []" by simp_all
    with x Inr p y show ?thesis by simp
  qed
qed

lemma load_full_store:
  "load_full E S df t = Inr (n, S') \<Longrightarrow> n = nrows df \<and> S' = S(t \<mapsto> [df])"
  by (auto simp: load_full_def to_sql_def bind_eq_Inr split: option.splits)

lemma load_incremental_store:
  "load_incremental E S df t = Inr (n, S') \<Longrightarrow> \<forall>t'. t' \<noteq> t \<longrightarrow> S' t' = S t'"
  by (auto simp: load_incremental_def to_sql_def bind_eq_Inr split: option.splits)

lemma load_tables_frame:
  "t \<notin> fst ` set td \<Longrightarrow> snd (load_tables E m td S) t = S t"
proof (induction td arbitrary: S)
  case Nil
  show ?case by simp
next
  case (Cons x td)
  obtain t' df where x: "x = (t', df)" by (cases x)
  with Cons.prems have ne: "t \<noteq> t'" and nin: "t \<notin> fst ` set td" by auto
  show ?case
  proof (cases "if m = ''full'' then load_full E S df t' else load_incremental E S df t'")
    case (Inl e)
    with x show ?thesis by simp
  next
    case (Inr p)
    obtain n S' where p: "p = (n, S')" by (cases p)
    obtain r evs S'' where y: "load_tables E m td S' = ((r, evs), S'')"
      by (cases "load_tables E m td S'") auto
    from Cons.IH[OF nin, of S'] y have a: "S'' t = S' t" by simp
    from Inr p ne have "S' t = S t"
      by (auto dest: load_full_store load_incremental_store split: if_splits)
    with a x Inr p y show ?thesis by simp
  qed
qed

lemma load_tables_full_written:
  "fst (fst (load_tables E ''full'' td S)) = Inr () \<Longrightarrow> distinct (map fst td)
   \<Longrightarrow> (t, df) \<in> set td \<Longrightarrow> snd (load_tables E ''full'' td S) t = Some [df]"
proof (induction td arbitrary: S)
  case Nil
  then show ?case by simp
next
  case (Cons x td)
  obtain t' df' where x: "x = (t', df')" by (cases x)
  show ?case
  proof (cases "load_full E S df' t'")
    case (Inl e)
    with Cons.prems(1) x show ?thesis by simp
  next
    case (Inr p)
    obtain n S' where p: "p = (n, S')" by (cases p)
    obtain r evs S'' where y: "load_tables E ''full'' td S' = ((r, evs), S'')"
      by (cases "load_tables E ''full'' td S'") auto
    from Cons.prems(1) x Inr p y have r: "fst (fst (load_tables E ''full'' td S')) = Inr ()"
      by simp
    from Inr p have S': "S' = S(t' \<mapsto> [df'])" by (auto dest: load_full_store)
    have res: "snd (load_tables E ''full'' (x # td) S) = snd (load_tables E ''full'' td S')"
      using x Inr p y by simp
    show ?thesis
    proof (cases "(t, df) = (t', df')")
      case True
      from Cons.prems(2) x have "t' \<notin> fst ` set td" by simp
      from load_tables_frame[OF this, of E "''full''" S'] S' True res show ?thesis by simp
    next
      case False
      with Cons.prems x have "(t, df) \<in> set td" "distinct (map fst td)" by auto
      from Cons.IH[OF r this(2) this(1)] res show ?thesis by simp
    qed
  qed
qed

lemma load_phase_calls:
  "end_calls (snd (fst (load_phase E self td m S))) = []
   \<and> start_calls (snd (fst (load_phase E self td m S))) = []"
  using load_one_calls[of E m td S]
  by (cases "bind (dict_item (config self) ''target'') (DatabaseLoader_init E)")
     (simp_all add: load_phase_def)

lemma load_phase_frame:
  "t \<notin> fst ` set td \<Longrightarrow> snd (load_phase E self td m S) t = S t"
  using load_tables_frame[of t td E m S]
  by (cases "bind (dict_item (config self) ''target'') (DatabaseLoader_init E)")
     (simp_all add: load_phase_def)

lemma load_phase_full_written:
  "fst (fst (load_phase E self td ''full'' S)) = Inr () \<Longrightarrow> distinct (map fst td)
   \<Longrightarrow> (t, df) \<in> set td \<Longrightarrow> snd (load_phase E self td ''full'' S) t = Some [df]"
  using load_tables_full_written[of E td S t df]
  by (cases "bind (dict_item (config self) ''target'') (DatabaseLoader_init E)")
     (simp_all add: load_phase_def)

subsection \<open>Outcome of a full run\<close>

lemma transform_phase_calls:
  "end_calls (snd (transform_phase E self data)) = []
   \<and> start_calls (snd (transform_phase E self data)) = []"
  by (simp add: transform_phase_def transform_tables_calls)

lemma banner_calls [simp]: "end_calls (banner s) = []" "start_calls (banner s) = []"
  by (simp_all add: banner_def)

lemma print_summary_calls [simp]:
  "end_calls (print_summary m r) = []" "start_calls (print_summary m r) = []"
  by (simp_all add: print_summary_def Let_def)

lemma full_body_summary:
  "fst (fst (full_body E self table run_id pre S)) = full_outcome E self table S
   \<and> end_calls (snd (fst (full_body E self table run_id pre S)))
       = (if full_loaded E self table S then [(run_id, ''SUCCESS'')] else [])
   \<and> start_calls (snd (fst (full_body E self table run_id pre S))) = []"
proof -
  obtain r1 evs1 where x: "extract_phase E self table = (r1, evs1)"
    by (cases "extract_phase E self table")
  have c1: "end_calls evs1 = []" "start_calls evs1 = []"
    using extract_phase_calls[of E self table] x by simp_all
  show ?thesis
  proof (cases r1)
    case (Inl e)
    with x c1 show ?thesis by (simp add: full_body_def full_outcome_def full_loaded_def)
  next
    case (Inr data)
    show ?thesis
    proof (cases "data = []")
      case True
      with x c1 Inr show ?thesis by (simp add: full_body_def full_outcome_def full_loaded_def)
    next
      case False
      obtain r2 evs2 where t: "transform_phase E self data = (r2, evs2)"
        by (cases "transform_phase E self data")
      have c2: "end_calls evs2 = []" "start_calls evs2 = []"
        using transform_phase_calls[of E self data] t by simp_all
      show ?thesis
      proof (cases r2)
        case (Inl e)
        with x c1 Inr False t c2 show ?thesis
          by (simp add: full_body_def full_outcome_def full_loaded_def)
      next
        case td: (Inr td)
        obtain r3 evs3 S' where l: "load_phase E self td ''full'' S = ((r3, evs3), S')"
          by (cases "load_phase E self td ''full'' S") auto
        have c3: "end_calls evs3 = []" "start_calls evs3 = []"
          using load_phase_calls[of E self td "''full''" S] l by simp_all
        show ?thesis
        proof (cases r3)
          case (Inl e)
          with x c1 Inr False t c2 td l c3 show ?thesis
            by (simp add: full_body_def full_outcome_def full_loaded_def)
        next
          case u: (Inr u)
          with x c1 Inr False t c2 td l c3 show ?thesis
            by (simp add: full_body_def full_outcome_def full_loaded_def Let_def)
        qed
      qed
    qed
  qed
qed

lemma run_full_pipeline_summary:
  "fst (fst (run_full_pipeline E self table S)) = full_outcome E self table S
   \<and> end_calls (snd (fst (run_full_pipeline E self table S)))
       = (if full_loaded E self table S then [(''run_'' @ now_stamp E, ''SUCCESS'')]
          else if isl (full_outcome E self table S) then [(''run_'' @ now_stamp E, ''FAILED'')]
          else [])
   \<and> start_calls (snd (fst (run_full_pipeline E self table S))) = [''run_'' @ now_stamp E]"
proof -
  define run_id where "run_id = ''run_'' @ now_stamp E"
  define pre where "pre = [Log INFO (''Starting full ETL pipeline - Run ID: '' @ run_id),
                           StartPipeline run_id]"
  obtain r evs S' where b: "full_body E self table run_id pre S = ((r, evs), S')"
    by (cases "full_body E self table run_id pre S") auto
  from full_body_summary[of E self table run_id pre S] b
  have r: "full_outcome E self table S = r"
    and e: "end_calls evs = (if full_loaded E self table S then [(run_id, ''SUCCESS'')] else [])"
    and s: "start_calls evs = []"
    by simp_all
  have nl: "full_loaded E self table S \<Longrightarrow> \<not> isl (full_outcome E self table S)"
    by (auto simp: full_loaded_def full_outcome_def)
  have p: "end_calls pre = []" "start_calls pre = [run_id]" by (simp_all add: pre_def)
  show ?thesis
  proof (cases r)
    case (Inl ex)
    with b have run: "run_full_pipeline E self table S =
        ((Inl ex, pre @ evs @ [EndPipeline run_id ''FAILED'',
                               Log ERROR (''Pipeline failed: '' @ exn_str ex)]
                  @ handle_error ex [(''run_id'', run_id)]), S')"
      by (simp add: run_full_pipeline_def Let_def run_id_def pre_def)
    from Inl r nl have "\<not> full_loaded E self table S" by auto
    with run Inl r e s p show ?thesis by (simp add: run_id_def)
  next
    case (Inr u)
    with b have run: "run_full_pipeline E self table S = ((Inr (), pre @ evs), S')"
      by (simp add: run_full_pipeline_def Let_def run_id_def pre_def)
    with Inr r e s p show ?thesis by (simp add: run_id_def)
  qed
qed

lemma run_full_pipeline_store:
  "snd (run_full_pipeline E self table S) = snd (full_body E self table (''run_'' @ now_stamp E)
      [Log INFO (''Starting full ETL pipeline - Run ID: '' @ ''run_'' @ now_stamp E),
       StartPipeline (''run_'' @ now_stamp E)] S)"
  by (simp add: run_full_pipeline_def Let_def split: prod.splits sum.splits)

lemma full_body_store:
  assumes "fst (extract_phase E self table) = Inr data" and "data \<noteq> []"
      and "fst (transform_phase E self data) = Inr td"
  shows "snd (full_body E self table run_id pre S) = snd (load_phase E self td ''full'' S)"
proof -
  obtain evs1 where x: "extract_phase E self table = (Inr data, evs1)"
    using assms(1) by (cases "extract_phase E self table") auto
  obtain evs2 where t: "transform_phase E self data = (Inr td, evs2)"
    using assms(3) by (cases "transform_phase E self data") auto
  obtain r3 evs3 S' where l: "load_phase E self td ''full'' S = ((r3, evs3), S')"
    by (cases "load_phase E self td ''full'' S") auto
  show ?thesis using x t l assms(2) by (cases r3) (simp_all add: full_body_def Let_def)
qed

subsection \<open>Error policy of a full run\<close>

lemma extracted_of_keys:
  "fst ` set (extracted_of rs acc) = fst ` set acc \<union> {t. \<exists>df. (t, Inr df) \<in> set rs}"
  by (induction rs acc rule: extracted_of.induct) (auto simp: dom_update)

lemma extracted_of_distinct:
  "distinct (map fst acc) \<Longrightarrow> distinct (map fst (extracted_of rs acc))"
  by (induction rs acc rule: extracted_of.induct) (simp_all add: distinct_update)

lemma attempts_names_distinct:
  assumes "(t1, r1) \<in> set (attempts E p db table)" and "(t2, r2) \<in> set (attempts E p db table)"
      and "t1 \<noteq> t2"
  shows "distinct (map fst (attempts E p db table))"
proof (cases table)
  case None
  then show ?thesis by (simp add: attempts_def csv_tables_def)
next
  case (Some t)
  show ?thesis
  proof (cases "t = []")
    case True
    with Some show ?thesis by (simp add: attempts_def csv_tables_def)
  next
    case False
    with Some assms show ?thesis by (auto simp: attempts_def csv_tables_def split: if_splits)
  qed
qed

lemma failed_not_extracted:
  assumes "distinct (map fst rs)" and "(t, Inl e) \<in> set rs"
  shows "t \<notin> fst ` set (extracted_of rs [])"
proof
  assume "t \<in> fst ` set (extracted_of rs [])"
  then obtain df where "(t, Inr df) \<in> set rs" by (auto simp: extracted_of_keys)
  with assms have "Inl e = (Inr df :: exn + dataframe)" by (metis eq_key_imp_eq_value)
  then show False by simp
qed

lemma transform_phase_keys:
  "fst (transform_phase E self data) = Inr td \<Longrightarrow> fst ` set td = fst ` set data"
  using transform_tables_keys[of E _ data "[]" td] by (simp add: transform_phase_def)

lemma transform_tables_distinct:
  "fst (transform_tables E q data acc) = Inr td \<Longrightarrow> distinct (map fst acc)
   \<Longrightarrow> distinct (map fst td)"
proof (induction data arbitrary: acc)
  case Nil
  then show ?case by simp
next
  case (Cons x data)
  obtain t df where x: "x = (t, df)" by (cases x)
  from Cons.prems(1) x obtain dft where
    r: "fst (transform_tables E q data (AList.update t dft acc)) = Inr td"
    by (auto simp: transform_tables_Cons bind_eq_Inr simp del: transform_tables.simps)
  from Cons.prems(2) have "distinct (map fst (AList.update t dft acc))" by (simp add: distinct_update)
  from Cons.IH[OF r this] show ?case .
qed

lemmas eval_defs =
  attempts_def csv_tables_def CSVExtractor_extract_def add_metadata_def setitem_def
  path_name_def get_date_columns_def extract_table_def sample_env_def orders_csv_def
  products_db_def day1_def transform_phase_def transform_table_def config_get_def
  sample_orchestrator_def apply_business_logic_def has_column_def getitem_def
  load_phase_def DatabaseLoader_init_def dict_item_def load_full_def to_sql_def
  config_item_def Let_def ret_def failing_clean_env_def

text \<open>
  C5. In a full run where the extract phase can be set up, the extraction of some
  configured table fails and that of another table succeeds, and transform and load then
  succeed: the run returns normally, its one \<open>end_pipeline\<close> call has status SUCCESS
  (no FAILED), and every table whose extraction failed is absent from the data handed to
  the transform phase and from the data handed to the load phase, and its table in the
  target store is left as it was.
\<close>

theorem run_full_pipeline_partial_extraction:
  assumes "config_item (config self) ''source'' ''csv_path'' = Inr csv_path"
      and "path_exists E csv_path"
      and "table = None \<or> table = Some ''products''
           \<longrightarrow> config_item (config self) ''source'' ''sqlite_db'' = Inr sqlite_db"
      and "(t1, Inl e1) \<in> set (attempts E csv_path sqlite_db table)"
      and "(t2, Inr df2) \<in> set (attempts E csv_path sqlite_db table)"
      and "t1 \<noteq> t2"
      and "fst (transform_phase E self (extracted_of (attempts E csv_path sqlite_db table) []))
             = Inr td"
      and "fst (fst (load_phase E self td ''full'' S)) = Inr ()"
  shows "fst (fst (run_full_pipeline E self table S)) = Inr ()
         \<and> end_calls (snd (fst (run_full_pipeline E self table S)))
             = [(''run_'' @ now_stamp E, ''SUCCESS'')]
         \<and> (\<forall>t e. (t, Inl e) \<in> set (attempts E csv_path sqlite_db table)
               \<longrightarrow> t \<notin> fst ` set (extracted_of (attempts E csv_path sqlite_db table) [])
                   \<and> t \<notin> fst ` set td
                   \<and> snd (run_full_pipeline E self table S) t = S t)"
proof -
  let ?rs = "attempts E csv_path sqlite_db table"
  let ?data = "extracted_of ?rs []"
  have x: "fst (extract_phase E self table) = Inr ?data"
    using extract_phase_shape[OF assms(1,2,3)] .
  have "t2 \<in> fst ` set ?data" using assms(5) by (auto simp: extracted_of_keys)
  then have ne: "?data \<noteq> []" by auto
  have loaded: "full_loaded E self table S"
    unfolding full_loaded_def using x ne assms(7,8) by blast
  have out: "full_outcome E self table S = Inr ()"
    using x ne assms(7,8) by (simp add: full_outcome_def)
  have d: "distinct (map fst ?rs)" using attempts_names_distinct[OF assms(4,5,6)] .
  have keys: "fst ` set td = fst ` set ?data" using transform_phase_keys[OF assms(7)] .
  have store: "snd (run_full_pipeline E self table S) = snd (load_phase E self td ''full'' S)"
    using full_body_store[OF x ne assms(7)] by (simp add: run_full_pipeline_store)
  have absent: "t \<notin> fst ` set ?data \<and> t \<notin> fst ` set td
                \<and> snd (run_full_pipeline E self table S) t = S t"
    if "(t, Inl e) \<in> set ?rs" for t e
  proof -
    from failed_not_extracted[OF d that] have a: "t \<notin> fst ` set ?data" .
    with keys have b: "t \<notin> fst ` set td" by simp
    from load_phase_frame[OF b] store have "snd (run_full_pipeline E self table S) t = S t"
      by simp
    with a b show ?thesis by simp
  qed
  from run_full_pipeline_summary[of E self table S] loaded out absent show ?thesis by simp
qed

theorem run_full_pipeline_partial_extraction_witness:
  "(''customers'', Inl (Exn ''FileNotFoundError'' ''CSV file not found: data/customers.csv''))
     \<in> set (attempts sample_env ''data'' ''shop.db'' None)
   \<and> fst (fst (run_full_pipeline sample_env sample_orchestrator None Map.empty)) = Inr ()
   \<and> end_calls (snd (fst (run_full_pipeline sample_env sample_orchestrator None Map.empty)))
       = [(''run_20240309_101500'', ''SUCCESS'')]
   \<and> ''customers'' \<notin> fst ` set (extracted_of (attempts sample_env ''data'' ''shop.db'' None) [])
   \<and> snd (run_full_pipeline sample_env sample_orchestrator None Map.empty) ''customers'' = None"
  using run_full_pipeline_partial_extraction
    [of sample_orchestrator "''data''" sample_env None "''shop.db''" "''customers''"
        "Exn ''FileNotFoundError'' ''CSV file not found: data/customers.csv''"
        "''orders''" "add_metadata sample_env ''data/orders.csv'' orders_csv"
        "projr (fst (transform_phase sample_env sample_orchestrator
                  (extracted_of (attempts sample_env ''data'' ''shop.db'' None) [])))"
        Map.empty]
  by (simp add: eval_defs)

text \<open>
  C1. For every full run: (1) when the extract phase can be set up (the configuration
  names the CSV path and the SQLite database it needs, and the CSV path exists), the
  phase returns the datasets of the extractions that succeeded whatever the other
  extractions raised: every attempt is made and no per-table failure leaves the phase;
  (2) once the extract phase has returned, the run raises \<open>e\<close> exactly when data was
  extracted and the transform phase raised \<open>e\<close>, or the transform phase succeeded and
  the load phase raised \<open>e\<close>: a transform or load failure is re-raised to the caller and
  nothing else raises; (3) whenever the run raises, its one \<open>end_pipeline\<close> call
  records FAILED.
\<close>

theorem run_full_pipeline_error_policy:
  "(config_item (config self) ''source'' ''csv_path'' = Inr csv_path \<and> path_exists E csv_path
      \<and> (table = None \<or> table = Some ''products''
           \<longrightarrow> config_item (config self) ''source'' ''sqlite_db'' = Inr sqlite_db)
     \<longrightarrow> fst (extract_phase E self table)
           = Inr (extracted_of (attempts E csv_path sqlite_db table) []))
   \<and> (fst (extract_phase E self table) = Inr data
     \<longrightarrow> (fst (fst (run_full_pipeline E self table S)) = Inl e
          \<longleftrightarrow> data \<noteq> []
              \<and> (fst (transform_phase E self data) = Inl e
                 \<or> (\<exists>td. fst (transform_phase E self data) = Inr td
                          \<and> fst (fst (load_phase E self td ''full'' S)) = Inl e))))
   \<and> (fst (fst (run_full_pipeline E self table S)) = Inl e
     \<longrightarrow> end_calls (snd (fst (run_full_pipeline E self table S)))
           = [(''run_'' @ now_stamp E, ''FAILED'')])"
proof (intro conjI impI)
  assume "config_item (config self) ''source'' ''csv_path'' = Inr csv_path \<and> path_exists E csv_path
      \<and> (table = None \<or> table = Some ''products''
           \<longrightarrow> config_item (config self) ''source'' ''sqlite_db'' = Inr sqlite_db)"
  then show "fst (extract_phase E self table)
           = Inr (extracted_of (attempts E csv_path sqlite_db table) [])"
    using extract_phase_shape[of self csv_path E table sqlite_db] by blast
next
  assume x: "fst (extract_phase E self table) = Inr data"
  have "fst (fst (run_full_pipeline E self table S)) = full_outcome E self table S"
    using run_full_pipeline_summary[of E self table S] by simp
  also have "\<dots> = (if data = [] then Inr ()
       else bind (fst (transform_phase E self data)) (\<lambda>td.
              fst (fst (load_phase E self td ''full'' S))))"
    using x by (simp add: full_outcome_def)
  finally show "fst (fst (run_full_pipeline E self table S)) = Inl e
          \<longleftrightarrow> data \<noteq> []
              \<and> (fst (transform_phase E self data) = Inl e
                 \<or> (\<exists>td. fst (transform_phase E self data) = Inr td
                          \<and> fst (fst (load_phase E self td ''full'' S)) = Inl e))"
    by (cases "fst (transform_phase E self data)") auto
next
  assume r: "fst (fst (run_full_pipeline E self table S)) = Inl e"
  then have o: "full_outcome E self table S = Inl e"
    using run_full_pipeline_summary[of E self table S] by simp
  then have "\<not> full_loaded E self table S"
    by (auto simp: full_loaded_def full_outcome_def)
  with o run_full_pipeline_summary[of E self table S]
  show "end_calls (snd (fst (run_full_pipeline E self table S)))
           = [(''run_'' @ now_stamp E, ''FAILED'')]"
    by simp
qed

theorem run_full_pipeline_error_policy_witness:
  "config_item (config sample_orchestrator) ''source'' ''csv_path'' = Inr ''data''
   \<and> isl (fst (CSVExtractor_extract failing_clean_env ''data'' ''customers''))
   \<and> fst (extract_phase failing_clean_env sample_orchestrator None)
       = Inr (extracted_of (attempts failing_clean_env ''data'' ''shop.db'' None) [])
   \<and> fst (transform_phase failing_clean_env sample_orchestrator
             (extracted_of (attempts failing_clean_env ''data'' ''shop.db'' None) []))
       = Inl (Exn ''ValueError'' ''bad row'')
   \<and> fst (fst (run_full_pipeline failing_clean_env sample_orchestrator None Map.empty))
       = Inl (Exn ''ValueError'' ''bad row'')
   \<and> end_calls (snd (fst (run_full_pipeline failing_clean_env sample_orchestrator None
                              Map.empty)))
       = [(''run_20240309_101500'', ''FAILED'')]"
  using run_full_pipeline_error_policy
    [of sample_orchestrator "''data''" failing_clean_env None "''shop.db''"
        "extracted_of (attempts failing_clean_env ''data'' ''shop.db'' None) []"
        Map.empty "Exn ''ValueError'' ''bad row''"]
  by (simp add: eval_defs)

subsection \<open>Validation verdicts\<close>

lemma transform_phase_entry:
  assumes "fst (transform_phase E self data) = Inr td" and "distinct (map fst data)"
      and "(t, df) \<in> set data"
  shows "\<exists>dft. fst (transform_table E (config_get (config self) ''quality'') t df) = Inr dft
               \<and> map_of td t = Some dft"
  using transform_tables_entry[of E "config_get (config self) ''quality''" data "[]" td t df] assms
  by (simp add: transform_phase_def)

lemma transform_phase_distinct:
  "fst (transform_phase E self data) = Inr td \<Longrightarrow> distinct (map fst td)"
  using transform_tables_distinct[of E "config_get (config self) ''quality''" data "[]" td]
  by (simp add: transform_phase_def)

text \<open>
  C8. Take a table of the extracted data whose cleaned dataset the validator finds
  invalid (\<open>is_valid\<close> false). The transform of that table only adds the warning lines
  to the log: its outcome is the outcome of the business rules on the cleaned dataset,
  with the transformation recorded when they succeed. Whenever the transform phase
  completes, the table is in its output with the business-rule result, and whenever the
  load phase of a full run then completes, that result is what the target store holds
  for the table. The verdict neither aborts the run nor excludes the table.
\<close>

theorem invalid_verdict_does_not_block:
  assumes "(t, df) \<in> set data" and "distinct (map fst data)"
      and "clean E df t = Inr df_clean"
      and "validate E (config_get (config self) ''quality'') df_clean t = Inr v"
      and "\<not> is_valid v"
  shows "transform_table E (config_get (config self) ''quality'') t df =
           (case apply_business_logic E df_clean t of
              Inl e \<Rightarrow>
                (Inl e,
                 [Log INFO (''  - Cleansing '' @ t), Log INFO (''  - Validating '' @ t),
                  Log WARNING (''Validation warnings for '' @ t @ '':'')]
                 @ map (\<lambda>warning. Log WARNING (''    - '' @ warning)) (warnings v)
                 @ [Log INFO (''  - Applying business logic to '' @ t)])
            | Inr df_transformed \<Rightarrow>
                (Inr df_transformed,
                 [Log INFO (''  - Cleansing '' @ t), Log INFO (''  - Validating '' @ t),
                  Log WARNING (''Validation warnings for '' @ t @ '':'')]
                 @ map (\<lambda>warning. Log WARNING (''    - '' @ warning)) (warnings v)
                 @ [Log INFO (''  - Applying business logic to '' @ t),
                    Log SUCCESS (''Transformed '' @ show_nat (nrows df_transformed)
                                 @ '' records for '' @ t),
                    RecordTransformation t (nrows df) (nrows df_transformed)
                      (case quality_score v of None \<Rightarrow> 100 | Some q \<Rightarrow> q)]))
         \<and> (\<forall>td. fst (transform_phase E self data) = Inr td \<longrightarrow>
               (\<exists>df_transformed.
                  apply_business_logic E df_clean t = Inr df_transformed
                  \<and> map_of td t = Some df_transformed
                  \<and> (\<forall>S. fst (fst (load_phase E self td ''full'' S)) = Inr ()
                         \<longrightarrow> snd (load_phase E self td ''full'' S) t = Some [df_transformed])))"
proof (intro conjI allI impI)
  show "transform_table E (config_get (config self) ''quality'') t df =
           (case apply_business_logic E df_clean t of
              Inl e \<Rightarrow>
                (Inl e,
                 [Log INFO (''  - Cleansing '' @ t), Log INFO (''  - Validating '' @ t),
                  Log WARNING (''Validation warnings for '' @ t @ '':'')]
                 @ map (\<lambda>warning. Log WARNING (''    - '' @ warning)) (warnings v)
                 @ [Log INFO (''  - Applying business logic to '' @ t)])
            | Inr df_transformed \<Rightarrow>
                (Inr df_transformed,
                 [Log INFO (''  - Cleansing '' @ t), Log INFO (''  - Validating '' @ t),
                  Log WARNING (''Validation warnings for '' @ t @ '':'')]
                 @ map (\<lambda>warning. Log WARNING (''    - '' @ warning)) (warnings v)
                 @ [Log INFO (''  - Applying business logic to '' @ t),
                    Log SUCCESS (''Transformed '' @ show_nat (nrows df_transformed)
                                 @ '' records for '' @ t),
                    RecordTransformation t (nrows df) (nrows df_transformed)
                      (case quality_score v of None \<Rightarrow> 100 | Some q \<Rightarrow> q)]))"
    using assms(3,4,5)
    by (cases "apply_business_logic E df_clean t") (simp_all add: transform_table_def ret_def)
next
  fix td
  assume td: "fst (transform_phase E self data) = Inr td"
  from transform_phase_entry[OF td assms(2,1)] obtain dft where
    tt: "fst (transform_table E (config_get (config self) ''quality'') t df) = Inr dft"
    and m: "map_of td t = Some dft" by blast
  from tt assms(3,4) have bl: "apply_business_logic E df_clean t = Inr dft"
    by (simp add: transform_table_result)
  have d: "distinct (map fst td)" using transform_phase_distinct[OF td] .
  have mem: "(t, dft) \<in> set td" using m by (rule map_of_SomeD)
  have "snd (load_phase E self td ''full'' S) t = Some [dft]"
    if "fst (fst (load_phase E self td ''full'' S)) = Inr ()" for S
    using load_phase_full_written[OF that d mem] .
  with bl m show "\<exists>df_transformed.
                  apply_business_logic E df_clean t = Inr df_transformed
                  \<and> map_of td t = Some df_transformed
                  \<and> (\<forall>S. fst (fst (load_phase E self td ''full'' S)) = Inr ()
                         \<longrightarrow> snd (load_phase E self td ''full'' S) t = Some [df_transformed])"
    by blast
qed

theorem invalid_verdict_does_not_block_witness:
  "validate sample_env (config_get (config sample_orchestrator) ''quality'') products_db
       ''products''
     = Inr \<lparr>is_valid = False, warnings = [''too many nulls''], quality_score = Some 40\<rparr>
   \<and> fst (transform_table sample_env (config_get (config sample_orchestrator) ''quality'')
             ''products'' products_db) = Inr products_db
   \<and> Log WARNING ''    - too many nulls''
       \<in> set (snd (transform_table sample_env (config_get (config sample_orchestrator) ''quality'')
                      ''products'' products_db))
   \<and> fst (transform_phase sample_env sample_orchestrator [(''products'', products_db)])
       = Inr [(''products'', products_db)]
   \<and> fst (fst (load_phase sample_env sample_orchestrator [(''products'', products_db)] ''full''
                  Map.empty)) = Inr ()
   \<and> snd (load_phase sample_env sample_orchestrator [(''products'', products_db)] ''full''
             Map.empty) ''products'' = Some [products_db]"
  using invalid_verdict_does_not_block
    [of "''products''" products_db "[(''products'', products_db)]" sample_env products_db
        sample_orchestrator
        "\<lparr>is_valid = False, warnings = [''too many nulls''], quality_score = Some 40\<rparr>"]
  by (simp add: eval_defs)

section \<open>Properties of the CSV extractor\<close>

lemma update_absent: "k \<notin> fst ` set al \<Longrightarrow> AList.update k v al = al @ [(k, v)]"
  by (induction al) auto

lemma apply_business_logic_keeps_column:
  assumes "apply_business_logic E d t = Inr d'"
      and "c \<notin> {''total_amount'', ''order_year'', ''order_month'', ''email'', ''margin_pct''}"
  shows "getitem d' c = getitem d c"
proof -
  consider "t = ''orders''" | "t = ''customers''" | "t = ''products''"
    | "t \<notin> {''orders'', ''customers'', ''products''}" by auto
  then show ?thesis
  proof cases
    case 1
    with assms show ?thesis
      by (auto simp: apply_business_logic_def bind_eq_Inr getitem_setitem_other Let_def
               split: if_splits)
  next
    case 2
    with assms show ?thesis
      by (auto simp: apply_business_logic_def bind_eq_Inr getitem_setitem_other
               split: if_splits)
  next
    case 3
    with assms show ?thesis
      by (auto simp: apply_business_logic_def bind_eq_Inr getitem_setitem_other
               split: if_splits)
  next
    case 4
    with assms show ?thesis by (simp add: apply_business_logic_def)
  qed
qed

lemma add_metadata_columns:
  "nrows (add_metadata E fp df) = nrows df"
  "getitem (add_metadata E fp df) ''_extracted_at''
     = Inr (Datetime (replicate (nrows df) (Some (timestamp_now E))))"
  "getitem (add_metadata E fp df) ''_source_file''
     = Inr (Object (replicate (nrows df) (Some (path_name fp))))"
  "c \<noteq> ''_extracted_at'' \<Longrightarrow> c \<noteq> ''_source_file''
     \<Longrightarrow> getitem (add_metadata E fp df) c = getitem df c"
  by (simp_all add: add_metadata_def Let_def getitem_setitem_same getitem_setitem_other)
     (simp_all add: setitem_def)

lemma add_metadata_fresh:
  "\<not> has_column df ''_extracted_at'' \<Longrightarrow> \<not> has_column df ''_source_file''
   \<Longrightarrow> columns (add_metadata E fp df)
       = columns df
         @ [(''_extracted_at'', Datetime (replicate (nrows df) (Some (timestamp_now E)))),
            (''_source_file'', Object (replicate (nrows df) (Some (path_name fp))))]"
  by (simp add: add_metadata_def Let_def setitem_def has_column_def update_absent)

text \<open>
  C10, as the code has it. When the CSV file of a table exists and parses, the extractor
  returns the parsed dataset with the same number of rows and with the columns
  \<open>_extracted_at\<close> (the time of extraction) and \<open>_source_file\<close> (the file's name)
  set on every row; every column of any other name is as parsed, and when the file has
  no column of those two names they are two extra columns after the original ones.
  A parsed column named \<open>_extracted_at\<close> or \<open>_source_file\<close> is overwritten. When
  the transform of the table succeeds, the business rules leave both columns as the
  cleaner returned them, and \<open>load_full\<close> writes the transformed dataset whole.
\<close>

theorem CSVExtractor_extract_metadata:
  assumes "path_exists E (source_path @ ''/'' @ t @ ''.csv'')"
      and "read_csv E (source_path @ ''/'' @ t @ ''.csv'') (get_date_columns t) = Inr df"
  shows "\<exists>df'. fst (CSVExtractor_extract E source_path t) = Inr df'
           \<and> nrows df' = nrows df
           \<and> getitem df' ''_extracted_at''
               = Inr (Datetime (replicate (nrows df) (Some (timestamp_now E))))
           \<and> getitem df' ''_source_file''
               = Inr (Object (replicate (nrows df)
                        (Some (path_name (source_path @ ''/'' @ t @ ''.csv'')))))
           \<and> (\<forall>c. c \<noteq> ''_extracted_at'' \<and> c \<noteq> ''_source_file''
                 \<longrightarrow> getitem df' c = getitem df c)
           \<and> (\<not> has_column df ''_extracted_at'' \<and> \<not> has_column df ''_source_file''
               \<longrightarrow> columns df'
                     = columns df
                       @ [(''_extracted_at'',
                           Datetime (replicate (nrows df) (Some (timestamp_now E)))),
                          (''_source_file'',
                           Object (replicate (nrows df)
                             (Some (path_name (source_path @ ''/'' @ t @ ''.csv'')))))])
           \<and> (\<forall>q dft. fst (transform_table E q t df') = Inr dft
                 \<longrightarrow> (\<exists>dc. clean E df' t = Inr dc
                        \<and> getitem dft ''_extracted_at'' = getitem dc ''_extracted_at''
                        \<and> getitem dft ''_source_file'' = getitem dc ''_source_file''
                        \<and> (\<forall>S n S'. load_full E S dft t = Inr (n, S')
                              \<longrightarrow> S' t = Some [dft])))"
proof -
  let ?fp = "source_path @ ''/'' @ t @ ''.csv''"
  let ?df' = "add_metadata E ?fp df"
  have x: "fst (CSVExtractor_extract E source_path t) = Inr ?df'"
    using assms by (simp add: CSVExtractor_extract_def Let_def)
  have tr: "\<exists>dc. clean E ?df' t = Inr dc
                \<and> getitem dft ''_extracted_at'' = getitem dc ''_extracted_at''
                \<and> getitem dft ''_source_file'' = getitem dc ''_source_file''
                \<and> (\<forall>S n S'. load_full E S dft t = Inr (n, S') \<longrightarrow> S' t = Some [dft])"
    if h: "fst (transform_table E q t ?df') = Inr dft" for q dft
  proof -
    from h obtain dc v where c: "clean E ?df' t = Inr dc"
      and bl: "apply_business_logic E dc t = Inr dft"
      by (auto simp: transform_table_result bind_eq_Inr)
    have a: "getitem dft ''_extracted_at'' = getitem dc ''_extracted_at''"
      using apply_business_logic_keeps_column[OF bl, of "''_extracted_at''"] by simp
    have b: "getitem dft ''_source_file'' = getitem dc ''_source_file''"
      using apply_business_logic_keeps_column[OF bl, of "''_source_file''"] by simp
    have "S' t = Some [dft]" if "load_full E S dft t = Inr (n, S')" for S n S'
      using load_full_store[OF that] by simp
    with c a b show ?thesis by blast
  qed
  show ?thesis
    apply (rule exI[of _ ?df'])
    apply (intro conjI allI impI)
          apply (rule x)
         apply (simp add: add_metadata_columns)
        apply (simp add: add_metadata_columns)
       apply (simp add: add_metadata_columns)
      apply (simp add: add_metadata_columns)
     apply (simp add: add_metadata_fresh)
    apply (rule tr, assumption)
    done
qed

theorem CSVExtractor_extract_metadata_witness:
  "path_exists sample_env (''data'' @ ''/'' @ ''orders'' @ ''.csv'')
   \<and> read_csv sample_env (''data'' @ ''/'' @ ''orders'' @ ''.csv'') (get_date_columns ''orders'')
       = Inr orders_csv
   \<and> fst (CSVExtractor_extract sample_env ''data'' ''orders'')
       = Inr \<lparr>columns =
                 columns orders_csv
                 @ [(''_extracted_at'', Datetime [Some day1, Some day1]),
                    (''_source_file'', Object [Some ''orders.csv'', Some ''orders.csv''])],
               nrows = 2\<rparr>"
proof -
  have p: "path_exists sample_env (''data'' @ ''/'' @ ''orders'' @ ''.csv'')"
    by (simp add: sample_env_def)
  have r: "read_csv sample_env (''data'' @ ''/'' @ ''orders'' @ ''.csv'')
             (get_date_columns ''orders'') = Inr orders_csv"
    by (simp add: sample_env_def)
  have fresh: "\<not> has_column orders_csv ''_extracted_at''
               \<and> \<not> has_column orders_csv ''_source_file''"
    by (simp add: has_column_def orders_csv_def)
  from CSVExtractor_extract_metadata [OF p r] fresh obtain df' where
    x: "fst (CSVExtractor_extract sample_env ''data'' ''orders'') = Inr df'"
    and n: "nrows df' = nrows orders_csv"
    and c: "columns df'
              = columns orders_csv
                @ [(''_extracted_at'',
                    Datetime (replicate (nrows orders_csv) (Some (timestamp_now sample_env)))),
                   (''_source_file'',
                    Object (replicate (nrows orders_csv)
                      (Some (path_name (''data'' @ ''/'' @ ''orders'' @ ''.csv'')))))]"
    by blast
  have "df' = \<lparr>columns =
                 columns orders_csv
                 @ [(''_extracted_at'', Datetime [Some day1, Some day1]),
                    (''_source_file'', Object [Some ''orders.csv'', Some ''orders.csv''])],
               nrows = 2\<rparr>"
    using n c
    by (cases df') (simp add: orders_csv_def sample_env_def path_name_def numeral_2_eq_2)
  with x p r show ?thesis by simp
qed

text \<open>
  C10, as the claim states it, fails: \<open>inventory.csv\<close> has a column \<open>_source_file\<close>
  of its own; the extracted dataset has that original column replaced by the file name
  and is extended by one column, not two.
\<close>

theorem CSVExtractor_extract_overwrites_counterexample:
  "read_csv sample_env ''data/inventory.csv'' (get_date_columns ''inventory'')
     = Inr inventory_csv
   \<and> columns inventory_csv
       = [(''sku'', Object [Some ''a17'']), (''_source_file'', Object [Some ''legacy.csv''])]
   \<and> fst (CSVExtractor_extract sample_env ''data'' ''inventory'')
       = Inr \<lparr>columns = [(''sku'', Object [Some ''a17'']),
                         (''_source_file'', Object [Some ''inventory.csv'']),
                         (''_extracted_at'', Datetime [Some day1])],
               nrows = 1\<rparr>"
  by (simp add: CSVExtractor_extract_def add_metadata_def setitem_def path_name_def
        get_date_columns_def sample_env_def inventory_csv_def Let_def)

section \<open>How a full run ends\<close>

text \<open>
  Over all environments: a full run whose extract phase returns no dataset returns
  normally without any \<open>end_pipeline\<close> call, and on every other path the run makes
  exactly one \<open>end_pipeline\<close> call, with status SUCCESS or FAILED.
\<close>

lemma run_full_pipeline_empty_extraction:
  assumes "fst (extract_phase E self table) = Inr []"
  shows "fst (fst (run_full_pipeline E self table S)) = Inr ()
         \<and> end_calls (snd (fst (run_full_pipeline E self table S))) = []"
proof -
  from assms have "full_outcome E self table S = Inr ()" "\<not> full_loaded E self table S"
    by (simp_all add: full_outcome_def full_loaded_def)
  with run_full_pipeline_summary[of E self table S] show ?thesis by simp
qed

lemma run_full_pipeline_ended_once:
  assumes "fst (extract_phase E self table) \<noteq> Inr []"
  shows "end_calls (snd (fst (run_full_pipeline E self table S)))
           = [(''run_'' @ now_stamp E, ''SUCCESS'')]
         \<or> end_calls (snd (fst (run_full_pipeline E self table S)))
           = [(''run_'' @ now_stamp E, ''FAILED'')]"
proof (cases "full_loaded E self table S")
  case True
  with run_full_pipeline_summary[of E self table S] show ?thesis by simp
next
  case False
  have "isl (full_outcome E self table S)"
  proof (cases "fst (extract_phase E self table)")
    case (Inl e)
    then show ?thesis by (simp add: full_outcome_def)
  next
    case (Inr data)
    with assms have ne: "data \<noteq> []" by simp
    show ?thesis
    proof (cases "fst (transform_phase E self data)")
      case (Inl e)
      with Inr ne show ?thesis by (simp add: full_outcome_def)
    next
      case td: (Inr td)
      show ?thesis
      proof (cases "fst (fst (load_phase E self td ''full'' S))")
        case (Inl e)
        with Inr ne td show ?thesis by (simp add: full_outcome_def)
      next
        case u: (Inr u)
        with Inr ne td have "full_loaded E self table S"
          unfolding full_loaded_def by auto
        with False show ?thesis by simp
      qed
    qed
  qed
  with False run_full_pipeline_summary[of E self table S] show ?thesis by simp
qed

section \<open>The repository's validator\<close>

text \<open>
  With the validator of \<open>src/transform/validator.py\<close> the transform of a table logs no
  warning and records a quality score of 100.
\<close>

lemma transform_table_DataValidator:
  assumes "validate E = DataValidator_validate" and "clean E df t = Inr df_clean"
      and "apply_business_logic E df_clean t = Inr df_transformed"
  shows "transform_table E q t df =
           (Inr df_transformed,
            [Log INFO (''  - Cleansing '' @ t), Log INFO (''  - Validating '' @ t),
             Log INFO (''  - Applying business logic to '' @ t),
             Log SUCCESS (''Transformed '' @ show_nat (nrows df_transformed)
                          @ '' records for '' @ t),
             RecordTransformation t (nrows df) (nrows df_transformed) 100])"
  using assms by (simp add: transform_table_def DataValidator_validate_def ret_def)

end
